theory Spec2Isabelle
  imports Complex_Main "HOL-Library.Word" "HOL-Library.Sublist"
begin

section \<open>JavaScript strings and numbers\<close>

text \<open>
  A JavaScript string is a sequence of UTF-16 code units; \<open>.length\<close> counts code units.
  String literals of the source are written \<open>js ''...''\<close>.
\<close>

type_synonym code_unit = "16 word"
type_synonym jsstring = "code_unit list"

definition cu :: "char \<Rightarrow> code_unit" where
  "cu c = of_nat (of_char c)"

definition js :: "string \<Rightarrow> jsstring" where
  "js s = map cu s"

text \<open>
  \<open>String.prototype.substring\<close>: both indices are clamped to \<open>[0, length]\<close> and swapped when
  the first exceeds the second. \<open>substringFrom s a\<close> is the one-argument form \<open>s.substring(a)\<close>.
\<close>

definition clampIndex :: "jsstring \<Rightarrow> int \<Rightarrow> nat" where
  "clampIndex s i = nat (min (max i 0) (int (length s)))"

definition substring :: "jsstring \<Rightarrow> int \<Rightarrow> int \<Rightarrow> jsstring" where
  "substring s a b =
     (let x = clampIndex s a; y = clampIndex s b
      in take (max x y - min x y) (drop (min x y) s))"

definition substringFrom :: "jsstring \<Rightarrow> int \<Rightarrow> jsstring" where
  "substringFrom s a = drop (clampIndex s a) s"

text \<open>
  The code units matched by the regular expression class \<open>\s\<close>: TAB, LF, VT, FF, CR, SPACE,
  NBSP, U+1680, U+2000 to U+200A, U+2028, U+2029, U+202F, U+205F, U+3000 and U+FEFF.
\<close>

definition isWhiteSpace :: "code_unit \<Rightarrow> bool" where
  "isWhiteSpace c \<longleftrightarrow>
     c = 0x09 \<or> c = 0x0A \<or> c = 0x0B \<or> c = 0x0C \<or> c = 0x0D \<or> c = 0x20 \<or> c = 0xA0 \<or>
     c = 0x1680 \<or> (0x2000 \<le> c \<and> c \<le> 0x200A) \<or> c = 0x2028 \<or> c = 0x2029 \<or>
     c = 0x202F \<or> c = 0x205F \<or> c = 0x3000 \<or> c = 0xFEFF"

text \<open>
  \<open>text.split(/\s+/)\<close>: the fields between maximal runs of white space (a leading or a
  trailing run yields an empty field, the empty string yields one empty field).
\<close>

function splitWhitespace :: "jsstring \<Rightarrow> jsstring list" where
  "splitWhitespace s =
     (if dropWhile (\<lambda>c. \<not> isWhiteSpace c) s = [] then [takeWhile (\<lambda>c. \<not> isWhiteSpace c) s]
      else takeWhile (\<lambda>c. \<not> isWhiteSpace c) s #
           splitWhitespace (dropWhile isWhiteSpace (dropWhile (\<lambda>c. \<not> isWhiteSpace c) s)))"
  by pat_completeness auto
termination
proof (relation "measure length")
  show "wf (measure length)" by simp
next
  fix s :: jsstring
  let ?r = "dropWhile (\<lambda>c. \<not> isWhiteSpace c) s"
  assume ne: "?r \<noteq> []"
  then have "isWhiteSpace (hd ?r)"
    using hd_dropWhile [of "\<lambda>c. \<not> isWhiteSpace c" s] by simp
  with ne have "length (dropWhile isWhiteSpace ?r) < length ?r"
    by (cases ?r) (auto simp: le_imp_less_Suc length_dropWhile_le)
  moreover have "length ?r \<le> length s"
    by (rule length_dropWhile_le)
  ultimately show "(dropWhile isWhiteSpace ?r, s) \<in> measure length"
    by simp
qed

declare splitWhitespace.simps [simp del]

section \<open>Token estimation (\<open>countTokens\<close>)\<close>

text \<open>
  \<open>countTokens\<close> on a string: \<open>Math.ceil(words * 1.3 + chars * 0.25)\<close>, where \<open>words\<close> is the
  number of non-empty fields of \<open>text.split(/\s+/)\<close>. The source computes in binary floating
  point; for every string a JavaScript engine can hold the double result equals the exact
  rational one (the exact value is a multiple of \<open>1/20\<close>, and the products are rounded to
  the exact value whenever the sum is an integer), so the model computes over the rationals.
\<close>

definition countTokens :: "jsstring \<Rightarrow> int" where
  "countTokens text =
     (let words = length (filter (\<lambda>word. length word > 0) (splitWhitespace text));
          chars = length text
      in \<lceil>of_nat words * (13 / 10) + of_nat chars * (1 / 4 :: rat)\<rceil>)"

record chat_message =
  role :: jsstring
  content :: jsstring
  name :: "jsstring option"

text \<open>\<open>countTokens\<close> on an array of messages: the \<open>reduce\<close> over the contents, from 0.\<close>

definition countTokensMessages :: "chat_message list \<Rightarrow> int" where
  "countTokensMessages input = foldl (\<lambda>total m. total + countTokens (content m)) 0 input"

section \<open>Context budget (\<open>processLongPrompt\<close>, \<open>truncateText\<close>, \<open>processLongMessages\<close>)\<close>

text \<open>
  The property read \<open>contextLimits[model]\<close> on the object literal of the source. A key of the
  literal yields its number. Any other name yields \<open>undefined\<close>, except the property names
  that every object inherits from \<open>Object.prototype\<close>, which yield a function (or, for
  \<open>__proto__\<close>, the prototype object).
\<close>

datatype property = Number int | Inherited | Undefined

definition contextLimits :: "jsstring \<Rightarrow> property" where
  "contextLimits model =
     (if model = js ''llama2'' then Number 4096
      else if model = js ''llama3'' then Number 8192
      else if model = js ''gemma'' then Number 8192
      else if model = js ''gemma2'' then Number 8192
      else if model = js ''gemma3'' then Number 8192
      else if model = js ''mistral'' then Number 8192
      else if model = js ''codellama'' then Number 16384
      else if model = js ''phi'' then Number 2048
      else if model = js ''default'' then Number 4096
      else if model \<in> set (map js
        [''constructor'', ''toString'', ''toLocaleString'', ''valueOf'', ''hasOwnProperty'',
         ''isPrototypeOf'', ''propertyIsEnumerable'', ''__proto__'', ''__defineGetter__'',
         ''__defineSetter__'', ''__lookupGetter__'', ''__lookupSetter__'']) then Inherited
      else Undefined)"

text \<open>
  \<open>Math.floor((contextLimits[model] || contextLimits.default) * 0.7)\<close>. An inherited property
  is truthy, so it is not replaced by the default, and multiplying it by \<open>0.7\<close> gives \<open>NaN\<close>:
  the result \<open>None\<close> stands for \<open>NaN\<close>. On the numbers of the table the double product has
  the same floor as the exact one.
\<close>

definition maxTokens :: "jsstring \<Rightarrow> int option" where
  "maxTokens model =
     (case contextLimits model of
        Number n \<Rightarrow> Some \<lfloor>of_int (if n = 0 then 4096 else n) * (7 / 10 :: rat)\<rfloor>
      | Inherited \<Rightarrow> None
      | Undefined \<Rightarrow> Some \<lfloor>of_int 4096 * (7 / 10 :: rat)\<rfloor>)"

definition truncationMarker :: jsstring where
  "truncationMarker = js ''\<newline>\<newline>[... content truncated due to length ...]\<newline>\<newline>''"

text \<open>
  \<open>processLongPrompt(prompt, model)\<close>. With a \<open>NaN\<close> budget every comparison is false,
  \<open>prompt.substring(0, NaN)\<close> is empty and \<open>prompt.substring(NaN)\<close> is the whole prompt.
\<close>

definition processLongPrompt :: "jsstring \<Rightarrow> jsstring \<Rightarrow> jsstring" where
  "processLongPrompt prompt model =
     (case maxTokens model of
        None \<Rightarrow> [] @ truncationMarker @ prompt
      | Some maxPromptTokens \<Rightarrow>
          if countTokens prompt \<le> maxPromptTokens then prompt
          else
            let maxChars = maxPromptTokens * 4;
                truncationPoint = \<lfloor>of_int maxChars * (8 / 10 :: rat)\<rfloor>;
                endPoint = maxChars - truncationPoint - 100
            in if int (length prompt) \<le> maxChars then prompt
               else substring prompt 0 truncationPoint @ truncationMarker @
                    substringFrom prompt (int (length prompt) - endPoint))"

text \<open>
  \<open>truncateText(text, maxChars)\<close>; \<open>maxChars\<close> may be negative, or \<open>NaN\<close> (\<open>None\<close>).
\<close>

definition truncateText :: "jsstring \<Rightarrow> int option \<Rightarrow> jsstring" where
  "truncateText text maxChars =
     (case maxChars of
        None \<Rightarrow> [] @ js ''\<newline>[... truncated ...]\<newline>'' @ text
      | Some mc \<Rightarrow>
          if int (length text) \<le> mc then text
          else
            let startChars = \<lfloor>of_int mc * (8 / 10 :: rat)\<rfloor>;
                endChars = mc - startChars - 50
            in substring text 0 startChars @ js ''\<newline>[... truncated ...]\<newline>'' @
               substringFrom text (int (length text) - endChars))"

text \<open>
  The \<open>for (const message of recentMessages)\<close> loop of \<open>processLongMessages\<close>: it returns the
  messages pushed, given the remaining budget (\<open>None\<close> is \<open>NaN\<close>). The \<open>break\<close> ends the
  loop after the first message that does not fit.
\<close>

fun pushRecent :: "int option \<Rightarrow> chat_message list \<Rightarrow> chat_message list" where
  "pushRecent remainingTokens [] = []"
| "pushRecent remainingTokens (m # ms) =
     (let messageTokens = countTokens (content m)
      in if (case remainingTokens of None \<Rightarrow> False | Some r \<Rightarrow> messageTokens \<le> r)
         then m # pushRecent (map_option (\<lambda>r. r - messageTokens) remainingTokens) ms
         else [m\<lparr>content :=
                  truncateText (content m) (map_option (\<lambda>r. r * 4) remainingTokens) @
                  js ''\<newline>[... message truncated due to length ...]''\<rparr>])"

text \<open>
  The three local constants of \<open>processLongMessages\<close>: the \<open>filter\<close> calls and
  \<open>nonSystemMessages.slice(-3)\<close>.
\<close>

definition systemMessages :: "chat_message list \<Rightarrow> chat_message list" where
  "systemMessages messages = filter (\<lambda>msg. role msg = js ''system'') messages"

definition nonSystemMessages :: "chat_message list \<Rightarrow> chat_message list" where
  "nonSystemMessages messages = filter (\<lambda>msg. role msg \<noteq> js ''system'') messages"

definition recentMessages :: "chat_message list \<Rightarrow> chat_message list" where
  "recentMessages messages =
     drop (length (nonSystemMessages messages) - 3) (nonSystemMessages messages)"

definition processLongMessages :: "chat_message list \<Rightarrow> jsstring \<Rightarrow> chat_message list" where
  "processLongMessages messages model =
     (let maxMessageTokens = maxTokens model;
          currentTokens = countTokensMessages messages
      in if (case maxMessageTokens of None \<Rightarrow> False | Some mt \<Rightarrow> currentTokens \<le> mt)
         then messages
         else
           let remainingTokens =
                 map_option (\<lambda>mt. mt - countTokensMessages (systemMessages messages))
                   maxMessageTokens
           in systemMessages messages @ pushRecent remainingTokens (recentMessages messages))"

section \<open>JSON values\<close>

text \<open>
  The values \<open>JSON.parse\<close> builds. A number keeps its source text: its value as a double is
  not needed below. An object keeps its members in source order; a property read takes the
  last member of that name, as \<open>JSON.parse\<close> lets a later duplicate overwrite an earlier one.
\<close>

datatype json =
  JNull | JBool bool | JNumber jsstring | JString jsstring | JArray "json list"
  | JObject "(jsstring \<times> json) list"

text \<open>
  A property read \<open>value.key\<close> for a key that no prototype defines for the value read
  (\<open>message\<close>, \<open>content\<close> and \<open>error\<close> on any value, \<open>length\<close> on a plain object): \<open>None\<close> is
  \<open>undefined\<close>. (The read on \<open>null\<close> throws and is handled by the caller.)
\<close>

fun getProperty :: "json \<Rightarrow> jsstring \<Rightarrow> json option" where
  "getProperty (JObject members) key = map_of (rev members) key"
| "getProperty v key = None"

section \<open>Errors\<close>

text \<open>
  A rejection of the HTTP client: \<open>error.code\<close>, \<open>error.message\<close>,
  \<open>error.response?.status\<close> (absent when no response was received), the body
  \<open>error.response.data\<close> of that response (\<open>None\<close> when it is \<open>undefined\<close>), and whether
  \<open>error.request\<close> is set.
\<close>

record axios_error =
  errorCode :: "jsstring option"
  errorMessage :: jsstring
  responseStatus :: "nat option"
  responseData :: "json option"
  request :: bool

text \<open>
  Values thrown that are not application errors: a rejection of the HTTP client, a
  \<open>SyntaxError\<close> of \<open>JSON.parse\<close>, a \<open>TypeError\<close> of a property read on \<open>undefined\<close> or
  \<open>null\<close>, the value \<open>undefined\<close> itself, and a plain \<open>new Error(message)\<close>.
  \<open>PlainError text original\<close> has the message \<open>text\<close>, followed by the message of the runtime
  error \<open>original\<close> when one is given (the text of that message is fixed by the engine).
\<close>

datatype raw_thrown =
  Rejected axios_error | SyntaxError | TypeError | UndefinedValue
  | PlainError jsstring "raw_thrown option"

text \<open>
  The classes of \<open>errors.lib\<close> used by the service. \<open>AppError\<close> sets \<open>message\<close>,
  \<open>statusCode\<close>, \<open>code\<close> and \<open>correlationId\<close>; \<open>TimeoutError\<close> adds \<open>timeout\<close>;
  \<open>ExternalServiceError\<close> adds \<open>service\<close> and, when an original error is given, extends the
  message by a colon and the original error's message: the model keeps the original error in
  \<open>cause\<close>, since the message text of a runtime error is fixed by the engine.
\<close>

datatype error_class = AppError | ValidationError | TimeoutError | ExternalServiceError

record app_error =
  errorClass :: error_class
  message :: jsstring
  statusCode :: nat
  code :: jsstring
  correlationId :: jsstring
  errorTimeout :: "rat option"
  service :: "jsstring option"
  cause :: "raw_thrown option"

definition newAppError :: "jsstring \<Rightarrow> nat \<Rightarrow> jsstring \<Rightarrow> jsstring \<Rightarrow> app_error" where
  "newAppError msg status c cid =
     \<lparr>errorClass = AppError, message = msg, statusCode = status, code = c,
      correlationId = cid, errorTimeout = None, service = None, cause = None\<rparr>"

definition newValidationError :: "jsstring \<Rightarrow> jsstring \<Rightarrow> app_error" where
  "newValidationError msg cid =
     (newAppError msg 400 (js ''VALIDATION_ERROR'') cid)\<lparr>errorClass := ValidationError\<rparr>"

definition newTimeoutError :: "jsstring \<Rightarrow> jsstring \<Rightarrow> rat \<Rightarrow> app_error" where
  "newTimeoutError msg cid t =
     (newAppError msg 408 (js ''TIMEOUT_ERROR'') cid)
       \<lparr>errorClass := TimeoutError, errorTimeout := Some t\<rparr>"

definition newExternalServiceError ::
  "jsstring \<Rightarrow> jsstring \<Rightarrow> jsstring \<Rightarrow> raw_thrown \<Rightarrow> app_error" where
  "newExternalServiceError msg cid svc originalError =
     (newAppError msg 502 (js ''EXTERNAL_SERVICE_ERROR'') cid)
       \<lparr>errorClass := ExternalServiceError, service := Some svc,
        cause := (if originalError = UndefinedValue then None else Some originalError)\<rparr>"

datatype thrown = Raw raw_thrown | App app_error

text \<open>
  The outcome of a call: a value returned or a value thrown. \<open>Unmodelled\<close> marks the
  behaviour left out of the model: the truthiness and the coercion to a string of a JSON
  number or array (they depend on the number as a double), and a \<open>length\<close> member of a
  JSON object read as a number.
\<close>

datatype 'a outcome = Returns 'a | Throws thrown | Unmodelled

section \<open>The retrying transport (\<open>retryRequest\<close>)\<close>

text \<open>
  The service object: \<open>this.timeout\<close>, \<open>this.maxRetries\<close> and the values of the defaults
  \<open>process.env['DEFAULT_MODEL'] || 'llama2'\<close>, \<open>parseFloat(... || '0.7')\<close> and
  \<open>parseInt(... || '2048')\<close>. A \<open>maxRetries\<close> that is \<open>NaN\<close> behaves as 0 does: the loop
  condition is false at once.
\<close>

record service =
  timeout :: rat
  maxRetries :: int
  defaultModel :: jsstring
  defaultTemperature :: rat
  defaultMaxTokens :: int

text \<open>The options object handed to \<open>requestFn\<close>; every caller of the source passes \<open>{}\<close>.\<close>

record request_options =
  optTimeout :: "rat option"
  responseType :: "jsstring option"

text \<open>\<open>haystack.includes(needle)\<close>.\<close>

fun includesStr :: "jsstring \<Rightarrow> jsstring \<Rightarrow> bool" where
  "includesStr [] needle = (needle = [])"
| "includesStr (c # cs) needle = (prefix needle (c # cs) \<or> includesStr cs needle)"

definition isTimeoutError :: "axios_error \<Rightarrow> bool" where
  "isTimeoutError error \<longleftrightarrow>
     errorCode error = Some (js ''ECONNABORTED'') \<or>
     includesStr (errorMessage error) (js ''timeout'') \<or>
     includesStr (errorMessage error) (js ''ETIMEDOUT'')"

text \<open>\<open>options.timeout || fallback\<close>: an absent or zero timeout is falsy.\<close>

definition timeoutOr :: "request_options \<Rightarrow> rat \<Rightarrow> rat" where
  "timeoutOr options fallback =
     (case optTimeout options of
        None \<Rightarrow> fallback
      | Some t \<Rightarrow> if t = 0 then fallback else t)"

text \<open>
  \<open>requestOptions\<close> of attempt \<open>attempt\<close>, with
  \<open>progressiveTimeout = this.timeout * Math.pow(1.5, attempt - 1)\<close>.
\<close>

definition requestOptions :: "service \<Rightarrow> request_options \<Rightarrow> int \<Rightarrow> request_options" where
  "requestOptions srv options attempt =
     (let progressiveTimeout = timeout srv * (3 / 2) ^ nat (attempt - 1)
      in options\<lparr>optTimeout := Some (timeoutOr options progressiveTimeout)\<rparr>)"

text \<open>The decimal digits of a number, for the template string of the timeout message.\<close>

function decimal :: "nat \<Rightarrow> jsstring" where
  "decimal n = (if n < 10 then [of_nat (48 + n)] else decimal (n div 10) @ [of_nat (48 + n mod 10)])"
  by pat_completeness auto
termination
  by (relation "measure id") auto

declare decimal.simps [simp del]

definition timeoutMessage :: "service \<Rightarrow> jsstring" where
  "timeoutMessage srv =
     js ''Request timeout after '' @ decimal (nat (maxRetries srv)) @
     js '' attempts. The Ollama server took too long to respond.''"

text \<open>\<open>throw lastError!\<close> after the loop; \<open>lastError\<close> is \<open>undefined\<close> when the loop never ran.\<close>

definition throwLastError :: "axios_error option \<Rightarrow> 'r outcome" where
  "throwLastError lastError =
     (case lastError of None \<Rightarrow> Throws (Raw UndefinedValue) | Some e \<Rightarrow> Throws (Raw (Rejected e)))"

text \<open>
  The loop of \<open>retryRequest\<close> (TypeScript service), from attempt \<open>attempt\<close> on. \<open>requestFn\<close> is
  given the number of its earlier invocations and the request options; the result pairs the
  outcome with the number of invocations made so far. Logging and the back-off sleep between
  attempts have no effect on either.
\<close>

function retryLoop ::
  "service \<Rightarrow> (nat \<Rightarrow> request_options \<Rightarrow> axios_error + 'r) \<Rightarrow> request_options \<Rightarrow> jsstring \<Rightarrow>
   int \<Rightarrow> axios_error option \<Rightarrow> nat \<Rightarrow> 'r outcome \<times> nat" where
  "retryLoop srv requestFn options cid attempt lastError calls =
     (if attempt \<le> maxRetries srv then
        (case requestFn calls (requestOptions srv options attempt) of
           Inr response \<Rightarrow> (Returns response, Suc calls)
         | Inl error \<Rightarrow>
             if attempt = maxRetries srv then
               (if isTimeoutError error
                then (Throws (App (newTimeoutError (timeoutMessage srv) cid
                                     (timeoutOr options (timeout srv)))), Suc calls)
                else (throwLastError (Some error), Suc calls))
             else retryLoop srv requestFn options cid (attempt + 1) (Some error)
                    (Suc calls))
      else (throwLastError lastError, calls))"
  by pat_completeness auto
termination
  by (relation "measure (\<lambda>(srv, requestFn, options, cid, attempt, lastError, calls).
        nat (maxRetries srv + 1 - attempt))") auto

declare retryLoop.simps [simp del]

definition retryRequest ::
  "service \<Rightarrow> (nat \<Rightarrow> request_options \<Rightarrow> axios_error + 'r) \<Rightarrow> request_options \<Rightarrow> jsstring \<Rightarrow>
   'r outcome \<times> nat" where
  "retryRequest srv requestFn options cid =
     retryLoop srv requestFn options cid 1 None 0"

text \<open>
  The loop of \<open>retryRequest\<close> of the JavaScript service: \<open>requestFn\<close> takes no argument, and
  the last error is thrown whatever its kind.
\<close>

function retryLoopJs ::
  "int \<Rightarrow> (nat \<Rightarrow> axios_error + 'r) \<Rightarrow> int \<Rightarrow> axios_error option \<Rightarrow> nat \<Rightarrow> 'r outcome \<times> nat" where
  "retryLoopJs this_maxRetries requestFn attempt lastError calls =
     (if attempt \<le> this_maxRetries then
        (case requestFn calls of
           Inr response \<Rightarrow> (Returns response, Suc calls)
         | Inl error \<Rightarrow>
             if attempt = this_maxRetries then (throwLastError (Some error), Suc calls)
             else retryLoopJs this_maxRetries requestFn (attempt + 1) (Some error) (Suc calls))
      else (throwLastError lastError, calls))"
  by pat_completeness auto
termination
  by (relation "measure (\<lambda>(this_maxRetries, requestFn, attempt, lastError, calls).
        nat (this_maxRetries + 1 - attempt))") auto

declare retryLoopJs.simps [simp del]

definition retryRequestJs :: "int \<Rightarrow> (nat \<Rightarrow> axios_error + 'r) \<Rightarrow> 'r outcome \<times> nat" where
  "retryRequestJs this_maxRetries requestFn = retryLoopJs this_maxRetries requestFn 1 None 0"

section \<open>\<open>JSON.parse\<close>\<close>

definition isJsonWhiteSpace :: "code_unit \<Rightarrow> bool" where
  "isJsonWhiteSpace c \<longleftrightarrow> c = 0x09 \<or> c = 0x0A \<or> c = 0x0D \<or> c = 0x20"

definition skipWs :: "jsstring \<Rightarrow> jsstring" where
  "skipWs s = dropWhile isJsonWhiteSpace s"

definition isDigit :: "code_unit \<Rightarrow> bool" where
  "isDigit c \<longleftrightarrow> 0x30 \<le> c \<and> c \<le> 0x39"

definition hexDigit :: "code_unit \<Rightarrow> code_unit option" where
  "hexDigit c =
     (if 0x30 \<le> c \<and> c \<le> 0x39 then Some (c - 0x30)
      else if 0x41 \<le> c \<and> c \<le> 0x46 then Some (c - 0x41 + 10)
      else if 0x61 \<le> c \<and> c \<le> 0x66 then Some (c - 0x61 + 10)
      else None)"

text \<open>The character after a backslash, other than \<open>u\<close>: quote, backslash, slash, b, f, n, r, t.\<close>

definition escapeChar :: "code_unit \<Rightarrow> code_unit option" where
  "escapeChar c =
     (if c = 0x22 then Some 0x22
      else if c = 0x5C then Some 0x5C
      else if c = 0x2F then Some 0x2F
      else if c = cu CHR ''b'' then Some 0x08
      else if c = cu CHR ''f'' then Some 0x0C
      else if c = cu CHR ''n'' then Some 0x0A
      else if c = cu CHR ''r'' then Some 0x0D
      else if c = cu CHR ''t'' then Some 0x09
      else None)"

text \<open>
  A string, from the character after its opening quote: the decoded string and the input
  after the closing quote. A control character below U+0020 is not allowed unescaped.
\<close>

fun parseString :: "jsstring \<Rightarrow> (jsstring \<times> jsstring) option" where
  "parseString [] = None"
| "parseString (c # cs) =
     (if c = 0x22 then Some ([], cs)
      else if c = 0x5C then
        (case cs of
           [] \<Rightarrow> None
         | e # es \<Rightarrow>
             if e = cu CHR ''u'' then
               (case es of
                  h1 # h2 # h3 # h4 # rest \<Rightarrow>
                    (case (hexDigit h1, hexDigit h2, hexDigit h3, hexDigit h4) of
                       (Some a, Some b, Some c', Some d) \<Rightarrow>
                         map_option (\<lambda>(str, r). ((a * 4096 + b * 256 + c' * 16 + d) # str, r))
                           (parseString rest)
                     | _ \<Rightarrow> None)
                | _ \<Rightarrow> None)
             else
               (case escapeChar e of
                  None \<Rightarrow> None
                | Some u \<Rightarrow> map_option (\<lambda>(str, r). (u # str, r)) (parseString es)))
      else if c < 0x20 then None
      else map_option (\<lambda>(str, r). (c # str, r)) (parseString cs))"

text \<open>
  A number: an optional minus, \<open>0\<close> or a digit sequence without leading zero, an optional
  fraction and an optional exponent, each with at least one digit.
\<close>

definition digitsThen :: "jsstring \<Rightarrow> (jsstring \<times> jsstring) option" where
  "digitsThen s =
     (if takeWhile isDigit s = [] then None
      else Some (takeWhile isDigit s, dropWhile isDigit s))"

definition parseInteger :: "jsstring \<Rightarrow> (jsstring \<times> jsstring) option" where
  "parseInteger s =
     (case s of
        [] \<Rightarrow> None
      | c # cs \<Rightarrow> if c = 0x30 then Some ([c], cs) else digitsThen (c # cs))"

definition parseFraction :: "jsstring \<Rightarrow> (jsstring \<times> jsstring) option" where
  "parseFraction s =
     (case s of
        [] \<Rightarrow> Some ([], [])
      | c # cs \<Rightarrow>
          if c = cu CHR ''.'' then map_option (\<lambda>(ds, r). (c # ds, r)) (digitsThen cs)
          else Some ([], c # cs))"

definition parseExponent :: "jsstring \<Rightarrow> (jsstring \<times> jsstring) option" where
  "parseExponent s =
     (case s of
        [] \<Rightarrow> Some ([], [])
      | c # cs \<Rightarrow>
          if c = cu CHR ''e'' \<or> c = cu CHR ''E'' then
            (case cs of
               [] \<Rightarrow> None
             | g # gs \<Rightarrow>
                 if g = cu CHR ''+'' \<or> g = cu CHR ''-''
                 then map_option (\<lambda>(ds, r). (c # g # ds, r)) (digitsThen gs)
                 else map_option (\<lambda>(ds, r). (c # ds, r)) (digitsThen (g # gs)))
          else Some ([], c # cs))"

definition parseNumber :: "jsstring \<Rightarrow> (jsstring \<times> jsstring) option" where
  "parseNumber s =
     (let sign = (if s \<noteq> [] \<and> hd s = cu CHR ''-'' then [cu CHR ''-''] else [])
      in case parseInteger (drop (length sign) s) of
           None \<Rightarrow> None
         | Some (i, r1) \<Rightarrow>
             (case parseFraction r1 of
                None \<Rightarrow> None
              | Some (f, r2) \<Rightarrow>
                  (case parseExponent r2 of
                     None \<Rightarrow> None
                   | Some (e, r3) \<Rightarrow> Some (sign @ i @ f @ e, r3))))"

text \<open>
  A value, the elements of a non-empty array and the members of a non-empty object, each
  from its first character. The first argument bounds the number of nested calls;
  \<open>JSON_parse\<close> starts with twice the length of the text plus two, which is never exhausted:
  every larger bound gives the same result (\<open>JSON_parse_fuel\<close> below).
\<close>

fun parseValue :: "nat \<Rightarrow> jsstring \<Rightarrow> (json \<times> jsstring) option"
  and parseElements :: "nat \<Rightarrow> jsstring \<Rightarrow> (json list \<times> jsstring) option"
  and parseMembers :: "nat \<Rightarrow> jsstring \<Rightarrow> ((jsstring \<times> json) list \<times> jsstring) option" where
  "parseValue 0 s = None"
| "parseValue (Suc n) [] = None"
| "parseValue (Suc n) (c # cs) =
     (if c = cu CHR ''{'' then
        (case skipWs cs of
           [] \<Rightarrow> None
         | d # ds \<Rightarrow>
             if d = cu CHR ''}'' then Some (JObject [], ds)
             else map_option (\<lambda>(ms, r). (JObject ms, r)) (parseMembers n (d # ds)))
      else if c = cu CHR ''['' then
        (case skipWs cs of
           [] \<Rightarrow> None
         | d # ds \<Rightarrow>
             if d = cu CHR '']'' then Some (JArray [], ds)
             else map_option (\<lambda>(vs, r). (JArray vs, r)) (parseElements n (d # ds)))
      else if c = 0x22 then map_option (\<lambda>(str, r). (JString str, r)) (parseString cs)
      else if prefix (js ''null'') (c # cs) then Some (JNull, drop 4 (c # cs))
      else if prefix (js ''true'') (c # cs) then Some (JBool True, drop 4 (c # cs))
      else if prefix (js ''false'') (c # cs) then Some (JBool False, drop 5 (c # cs))
      else map_option (\<lambda>(lexeme, r). (JNumber lexeme, r)) (parseNumber (c # cs)))"
| "parseElements 0 s = None"
| "parseElements (Suc n) s =
     (case parseValue n s of
        None \<Rightarrow> None
      | Some (v, r) \<Rightarrow>
          (case skipWs r of
             [] \<Rightarrow> None
           | d # ds \<Rightarrow>
               if d = cu CHR '','' then
                 map_option (\<lambda>(vs, r'). (v # vs, r')) (parseElements n (skipWs ds))
               else if d = cu CHR '']'' then Some ([v], ds)
               else None))"
| "parseMembers 0 s = None"
| "parseMembers (Suc n) s =
     (case s of
        [] \<Rightarrow> None
      | q # qs \<Rightarrow>
          if q \<noteq> 0x22 then None
          else
            (case parseString qs of
               None \<Rightarrow> None
             | Some (key, r) \<Rightarrow>
                 (case skipWs r of
                    [] \<Rightarrow> None
                  | colon # r1 \<Rightarrow>
                      if colon \<noteq> cu CHR '':'' then None
                      else
                        (case parseValue n (skipWs r1) of
                           None \<Rightarrow> None
                         | Some (v, r2) \<Rightarrow>
                             (case skipWs r2 of
                                [] \<Rightarrow> None
                              | d # ds \<Rightarrow>
                                  if d = cu CHR '','' then
                                    map_option (\<lambda>(ms, r'). ((key, v) # ms, r'))
                                      (parseMembers n (skipWs ds))
                                  else if d = cu CHR ''}'' then Some ([(key, v)], ds)
                                  else None)))))"

text \<open>\<open>JSON.parse(text)\<close>; \<open>None\<close> is the \<open>SyntaxError\<close>.\<close>

definition JSON_parse :: "jsstring \<Rightarrow> json option" where
  "JSON_parse text =
     (case parseValue (2 * length text + 2) (skipWs text) of
        None \<Rightarrow> None
      | Some (v, r) \<Rightarrow> if skipWs r = [] then Some v else None)"

section \<open>Stream aggregation and chat completion (TypeScript service)\<close>

text \<open>\<open>buffer.indexOf(c)\<close>: the first position of \<open>c\<close>, or \<open>-1\<close>.\<close>

fun indexFrom :: "jsstring \<Rightarrow> code_unit \<Rightarrow> int \<Rightarrow> int" where
  "indexFrom [] c i = - 1"
| "indexFrom (x # xs) c i = (if x = c then i else indexFrom xs c (i + 1))"

definition indexOf :: "jsstring \<Rightarrow> code_unit \<Rightarrow> int" where
  "indexOf s c = indexFrom s c 0"

text \<open>
  What one parsed line adds to \<open>fullContent\<close>, by
  \<open>if (parsed.message && parsed.message.content) fullContent += parsed.message.content\<close>:
  \<open>Returns []\<close> when the condition is false. Only an object has a \<open>content\<close> property; a
  string is appended as it is, \<open>true\<close> and an object through their string coercions.
\<close>

fun lineContent :: "json \<Rightarrow> jsstring outcome" where
  "lineContent JNull = Throws (Raw TypeError)"
| "lineContent parsed =
     (case getProperty parsed (js ''message'') of
        Some (JObject members) \<Rightarrow>
          (case getProperty (JObject members) (js ''content'') of
             None \<Rightarrow> Returns []
           | Some JNull \<Rightarrow> Returns []
           | Some (JBool b) \<Rightarrow> Returns (if b then js ''true'' else [])
           | Some (JString str) \<Rightarrow> Returns str
           | Some (JObject ms) \<Rightarrow> Returns (js ''[object Object]'')
           | Some (JNumber n) \<Rightarrow> Unmodelled
           | Some (JArray vs) \<Rightarrow> Unmodelled)
      | _ \<Rightarrow> Returns [])"

text \<open>
  The inner \<open>while (boundary !== -1)\<close> loop: every complete line of the buffer is taken off
  and parsed; the result is the new \<open>fullContent\<close> and the rest of the buffer.
\<close>

function processBuffer :: "jsstring \<Rightarrow> jsstring \<Rightarrow> (jsstring \<times> jsstring) outcome" where
  "processBuffer fullContent buffer =
     (if indexOf buffer 0x0A \<noteq> - 1 then
        (if substring buffer 0 (indexOf buffer 0x0A) \<noteq> [] then
           (case JSON_parse (substring buffer 0 (indexOf buffer 0x0A)) of
              None \<Rightarrow> Throws (Raw SyntaxError)
            | Some parsed \<Rightarrow>
                (case lineContent parsed of
                   Returns fragment \<Rightarrow>
                     processBuffer (fullContent @ fragment)
                       (substringFrom buffer (indexOf buffer 0x0A + 1))
                 | Throws e \<Rightarrow> Throws e
                 | Unmodelled \<Rightarrow> Unmodelled))
         else processBuffer fullContent (substringFrom buffer (indexOf buffer 0x0A + 1)))
      else Returns (fullContent, buffer))"
  by pat_completeness auto
termination
proof (relation "measure (\<lambda>(fullContent, buffer). length buffer)")
  show "wf (measure (\<lambda>(fullContent, buffer). length buffer))" by simp
next
  have "0 \<le> i \<Longrightarrow> indexFrom b c i \<noteq> - 1 \<Longrightarrow>
          i \<le> indexFrom b c i \<and> indexFrom b c i < i + int (length b)"
    for b :: jsstring and c i
  proof (induction b arbitrary: i)
    case Nil
    then show ?case by simp
  next
    case (Cons a b)
    show ?case
    proof (cases "a = c")
      case True
      then show ?thesis by simp
    next
      case False
      with Cons.prems have "0 \<le> i + 1" "indexFrom b c (i + 1) \<noteq> - 1" by simp_all
      from Cons.IH [OF this] False show ?thesis by simp
    qed
  qed
  then have bound: "indexOf b c \<noteq> - 1 \<Longrightarrow> 0 \<le> indexOf b c \<and> indexOf b c < int (length b)"
    for b :: jsstring and c
    unfolding indexOf_def by fastforce
  have shorter: "indexOf b c \<noteq> - 1 \<Longrightarrow> length (substringFrom b (indexOf b c + 1)) < length b"
    for b :: jsstring and c
    using bound [of b c] by (auto simp: substringFrom_def clampIndex_def)
  {
    fix fullContent buffer :: jsstring and x2 :: json and x1 :: jsstring
    assume "indexOf buffer 0x0A \<noteq> - 1"
    then show "((fullContent @ x1, substringFrom buffer (indexOf buffer 0x0A + 1)),
                fullContent, buffer) \<in> measure (\<lambda>(fullContent, buffer). length buffer)"
      using shorter [of buffer "0x0A"] by simp
  }
  {
    fix fullContent buffer :: jsstring
    assume "indexOf buffer 0x0A \<noteq> - 1"
    then show "((fullContent, substringFrom buffer (indexOf buffer 0x0A + 1)),
                fullContent, buffer) \<in> measure (\<lambda>(fullContent, buffer). length buffer)"
      using shorter [of buffer "0x0A"] by simp
  }
qed

declare processBuffer.simps [simp del]

text \<open>
  A chunk of the response stream is a \<open>Buffer\<close>, a sequence of bytes. \<open>bytes ''...''\<close> is the
  buffer holding the given ASCII text.
\<close>

type_synonym byte = "8 word"

definition bytes :: "string \<Rightarrow> byte list" where
  "bytes s = map (\<lambda>c. of_nat (of_char c)) s"

text \<open>The UTF-16 code units of a code point: one unit, or a surrogate pair above \<open>U+FFFF\<close>.\<close>

definition utf16 :: "nat \<Rightarrow> jsstring" where
  "utf16 cp =
     (if cp < 0x10000 then [of_nat cp]
      else [of_nat (0xD800 + (cp - 0x10000) div 0x400),
            of_nat (0xDC00 + (cp - 0x10000) mod 0x400)])"

text \<open>
  \<open>chunk.toString()\<close>: the buffer decoded as UTF-8, each chunk on its own. \<open>cp\<close> is the code
  point collected so far, \<open>needed\<close> the number of continuation bytes still expected and
  \<open>lower\<close>, \<open>upper\<close> the range allowed for the next one. A byte that cannot start a
  sequence, and a sequence broken off by a byte out of range or by the end of the buffer,
  each decode to \<open>U+FFFD\<close>; the byte that broke a sequence off is then read again as the
  start of the next one. A byte order mark is kept.
\<close>

fun decodeUtf8 :: "nat \<Rightarrow> nat \<Rightarrow> byte \<Rightarrow> byte \<Rightarrow> byte list \<Rightarrow> jsstring" where
  "decodeUtf8 cp needed lower upper [] = (if needed = 0 then [] else [0xFFFD])"
| "decodeUtf8 cp needed lower upper (b # bs) =
     (if needed = 0 then
        (if b \<le> 0x7F then ucast b # decodeUtf8 0 0 0x80 0xBF bs
         else if 0xC2 \<le> b \<and> b \<le> 0xDF then decodeUtf8 (unat b - 0xC0) 1 0x80 0xBF bs
         else if 0xE0 \<le> b \<and> b \<le> 0xEF then
           decodeUtf8 (unat b - 0xE0) 2 (if b = 0xE0 then 0xA0 else 0x80)
             (if b = 0xED then 0x9F else 0xBF) bs
         else if 0xF0 \<le> b \<and> b \<le> 0xF4 then
           decodeUtf8 (unat b - 0xF0) 3 (if b = 0xF0 then 0x90 else 0x80)
             (if b = 0xF4 then 0x8F else 0xBF) bs
         else 0xFFFD # decodeUtf8 0 0 0x80 0xBF bs)
      else if \<not> (lower \<le> b \<and> b \<le> upper) then
        0xFFFD # decodeUtf8 0 0 0x80 0xBF (b # bs)
      else if needed = 1 then
        utf16 (cp * 64 + (unat b - 0x80)) @ decodeUtf8 0 0 0x80 0xBF bs
      else decodeUtf8 (cp * 64 + (unat b - 0x80)) (needed - 1) 0x80 0xBF bs)"

declare decodeUtf8.simps(2) [simp del]

definition toString :: "byte list \<Rightarrow> jsstring" where
  "toString chunk = decodeUtf8 0 0 0x80 0xBF chunk"

text \<open>
  The \<open>for await (const chunk of response.data)\<close> loop over the chunks of the response. After
  the last chunk the loop ends and \<open>fullContent\<close> is the result: the buffer is not read again.
\<close>

fun consumeChunks :: "jsstring \<Rightarrow> jsstring \<Rightarrow> byte list list \<Rightarrow> jsstring outcome" where
  "consumeChunks fullContent buffer [] = Returns fullContent"
| "consumeChunks fullContent buffer (chunk # chunks) =
     (case processBuffer fullContent (buffer @ toString chunk) of
        Returns (fullContent', buffer') \<Rightarrow> consumeChunks fullContent' buffer' chunks
      | Throws e \<Rightarrow> Throws e
      | Unmodelled \<Rightarrow> Unmodelled)"

text \<open>The parameters of a chat completion; \<open>None\<close> is an absent (\<open>undefined\<close>) field.\<close>

record chat_params =
  model :: "jsstring option"
  messages :: "chat_message list option"
  temperature :: "rat option"
  max_tokens :: "int option"

record request_data =
  req_model :: jsstring
  req_messages :: "chat_message list"
  req_temperature :: rat
  req_num_predict :: int
  req_stream :: bool

text \<open>A call \<open>this.client.post(url, requestData, config)\<close>.\<close>

record post_call =
  url :: jsstring
  body :: request_data
  config :: request_options

record ollama_usage =
  prompt_tokens :: int
  completion_tokens :: int
  total_tokens :: int

text \<open>The object returned: \<open>data.message.content\<close>, \<open>model\<close> and \<open>usage\<close> (\<open>success\<close> is true).\<close>

record chat_result =
  success :: bool
  data_message_content :: jsstring
  result_model :: jsstring
  usage :: ollama_usage

text \<open>
  The \<open>catch\<close> block of \<open>generateChatCompletion\<close>. It first calls \<open>logError\<close>, which reads
  \<open>error.message\<close>, \<open>error.name\<close> and \<open>error.stack\<close>: when the value caught is \<open>undefined\<close>
  that read throws a \<open>TypeError\<close>, which leaves the method as it is. Otherwise an \<open>AppError\<close>
  (of any subclass) is thrown again and anything else is wrapped in an
  \<open>ExternalServiceError\<close>.
\<close>

fun catchChat :: "jsstring \<Rightarrow> thrown \<Rightarrow> thrown" where
  "catchChat cid (Raw UndefinedValue) = Raw TypeError"
| "catchChat cid (App e) = App e"
| "catchChat cid (Raw e) =
     App (newExternalServiceError (js ''Chat completion failed'') cid (js ''Ollama'') e)"

text \<open>
  \<open>generateChatCompletion(params, context)\<close> of the TypeScript service, where \<open>cid\<close> is
  \<open>context.correlationId\<close> and \<open>post\<close> is the HTTP client, given the number of its earlier
  invocations; a response is the sequence of the buffers read from its stream. The result
  pairs the outcome with the number of invocations of \<open>post\<close>. The
  opening log call reads \<open>params.messages.length\<close>, which throws a \<open>TypeError\<close> inside the
  \<open>try\<close> block when \<open>messages\<close> is absent.
\<close>

definition generateChatCompletion ::
  "service \<Rightarrow> (nat \<Rightarrow> post_call \<Rightarrow> axios_error + byte list list) \<Rightarrow> chat_params \<Rightarrow> jsstring \<Rightarrow>
   chat_result outcome \<times> nat" where
  "generateChatCompletion srv post params cid =
     (case messages params of
        None \<Rightarrow> (Throws (catchChat cid (Raw TypeError)), 0)
      | Some msgs \<Rightarrow>
          if msgs = [] then
            (Throws (catchChat cid
               (App (newAppError (js ''Messages array is required and must not be empty'') 400
                       (js ''VALIDATION_ERROR'') cid))), 0)
          else
            let mdl = (case model params of None \<Rightarrow> defaultModel srv | Some m \<Rightarrow> m);
                temp = (case temperature params of None \<Rightarrow> defaultTemperature srv | Some t \<Rightarrow> t);
                maxTok = (case max_tokens params of None \<Rightarrow> defaultMaxTokens srv | Some t \<Rightarrow> t);
                requestData = \<lparr>req_model = mdl, req_messages = msgs, req_temperature = temp,
                               req_num_predict = maxTok, req_stream = True\<rparr>
            in case retryRequest srv
                      (\<lambda>calls options. post calls
                         \<lparr>url = js ''/api/chat'', body = requestData,
                          config = options\<lparr>responseType := Some (js ''stream'')\<rparr>\<rparr>)
                      \<lparr>optTimeout = None, responseType = None\<rparr> cid of
                 (Throws e, calls) \<Rightarrow> (Throws (catchChat cid e), calls)
               | (Unmodelled, calls) \<Rightarrow> (Unmodelled, calls)
               | (Returns chunks, calls) \<Rightarrow>
                   (case consumeChunks [] [] chunks of
                      Throws e \<Rightarrow> (Throws (catchChat cid e), calls)
                    | Unmodelled \<Rightarrow> (Unmodelled, calls)
                    | Returns fullContent \<Rightarrow>
                        (Returns \<lparr>success = True, data_message_content = fullContent,
                                  result_model = mdl,
                                  usage = \<lparr>prompt_tokens = countTokensMessages msgs,
                                            completion_tokens = int (length fullContent),
                                            total_tokens = countTokensMessages msgs
                                                           + int (length fullContent)\<rparr>\<rparr>,
                         calls)))"

section \<open>Chat completion (JavaScript service)\<close>

text \<open>
  \<open>value || fallback\<close> for a JSON value (\<open>None\<close> is \<open>undefined\<close>), as a template string shows
  it: a falsy value gives the fallback, a string itself, \<open>true\<close> and an object their string
  coercions.
\<close>

fun orMessage :: "json option \<Rightarrow> jsstring \<Rightarrow> jsstring outcome" where
  "orMessage None fallback = Returns fallback"
| "orMessage (Some JNull) fallback = Returns fallback"
| "orMessage (Some (JBool b)) fallback = Returns (if b then js ''true'' else fallback)"
| "orMessage (Some (JString str)) fallback = Returns (if str = [] then fallback else str)"
| "orMessage (Some (JObject ms)) fallback = Returns (js ''[object Object]'')"
| "orMessage (Some (JNumber n)) fallback = Unmodelled"
| "orMessage (Some (JArray vs)) fallback = Unmodelled"

text \<open>
  \<open>handleError(error)\<close>: the \<open>Error\<close> it returns. Only a rejection of the HTTP client has a
  \<open>response\<close> or a \<open>request\<close>; \<open>error.response.data?.error\<close> is \<open>undefined\<close> unless the body is
  an object with that member. On \<open>undefined\<close> the read of \<open>error.response\<close> throws.
\<close>

fun handleError :: "thrown \<Rightarrow> raw_thrown outcome" where
  "handleError (Raw (Rejected error)) =
     (case responseStatus error of
        Some status \<Rightarrow>
          (case orMessage (case responseData error of
                             None \<Rightarrow> None
                           | Some d \<Rightarrow> getProperty d (js ''error'')) (errorMessage error) of
             Returns msg \<Rightarrow>
               Returns (PlainError (js ''Ollama API Error ('' @ decimal status @ js ''): '' @ msg)
                          None)
           | Throws t \<Rightarrow> Throws t
           | Unmodelled \<Rightarrow> Unmodelled)
      | None \<Rightarrow>
          if request error then
            Returns (PlainError
              (js ''Ollama server is unreachable. Please check the server URL and network connection.'')
              None)
          else Returns (PlainError (js ''Request setup error: '' @ errorMessage error) None))"
| "handleError (Raw UndefinedValue) = Throws (Raw TypeError)"
| "handleError (Raw (PlainError msg original)) =
     Returns (PlainError (js ''Request setup error: '' @ msg) original)"
| "handleError (Raw e) = Returns (PlainError (js ''Request setup error: '') (Some e))"
| "handleError (App e) = Returns (PlainError (js ''Request setup error: '' @ message e) None)"

text \<open>
  The \<open>catch\<close> block of \<open>generateChatCompletion\<close> (JavaScript service): the log call reads
  \<open>error.message\<close>, which throws a \<open>TypeError\<close> when the value caught is \<open>undefined\<close>; then the
  result of \<open>handleError\<close> is thrown.
\<close>

definition catchChatJs :: "thrown \<Rightarrow> 'a outcome" where
  "catchChatJs error =
     (if error = Raw UndefinedValue then Throws (Raw TypeError)
      else case handleError error of
             Returns e \<Rightarrow> Throws (Raw e)
           | Throws t \<Rightarrow> Throws t
           | Unmodelled \<Rightarrow> Unmodelled)"

text \<open>
  \<open>response.data.message?.content?.length || 0\<close>. The read of \<open>message\<close> on \<open>null\<close> throws;
  each optional chain gives \<open>undefined\<close> on \<open>undefined\<close> and \<open>null\<close>; a string and an array
  have a length, a boolean and a number have none.
\<close>

fun contentLength :: "json \<Rightarrow> int outcome" where
  "contentLength JNull = Throws (Raw TypeError)"
| "contentLength data =
     (case getProperty data (js ''message'') of
        None \<Rightarrow> Returns 0
      | Some JNull \<Rightarrow> Returns 0
      | Some msg \<Rightarrow>
          (case getProperty msg (js ''content'') of
             None \<Rightarrow> Returns 0
           | Some JNull \<Rightarrow> Returns 0
           | Some (JBool b) \<Rightarrow> Returns 0
           | Some (JNumber n) \<Rightarrow> Returns 0
           | Some (JString str) \<Rightarrow> Returns (int (length str))
           | Some (JArray vs) \<Rightarrow> Returns (int (length vs))
           | Some (JObject ms) \<Rightarrow>
               (case getProperty (JObject ms) (js ''length'') of
                  None \<Rightarrow> Returns 0
                | Some v \<Rightarrow> Unmodelled)))"

text \<open>
  The parameters of the JavaScript service have one more field, \<open>stream\<close>. A call of its
  HTTP client is \<open>this.client.post(url, requestData)\<close>; the response data is the body as the
  client parsed it. The object returned holds that body.
\<close>

record chat_params_js = chat_params +
  stream :: "bool option"

record chat_result_js =
  js_success :: bool
  js_data :: json
  js_model :: jsstring
  js_usage :: ollama_usage

text \<open>
  \<open>generateChatCompletion(params)\<close> of the JavaScript service, where \<open>post\<close> is the HTTP
  client, given the number of its earlier invocations, and \<open>maxRetries srv\<close> is
  \<open>this.maxRetries\<close> (there \<open>parseInt(...) || 3\<close>). The validation precedes the \<open>try\<close> block:
  its \<open>Error\<close> leaves the method as it is.
\<close>

definition generateChatCompletionJs ::
  "service \<Rightarrow> (nat \<Rightarrow> jsstring \<Rightarrow> request_data \<Rightarrow> axios_error + json) \<Rightarrow> chat_params_js \<Rightarrow>
   chat_result_js outcome \<times> nat" where
  "generateChatCompletionJs srv post params =
     (let mdl = (case model params of None \<Rightarrow> defaultModel srv | Some m \<Rightarrow> m);
          temp = (case temperature params of None \<Rightarrow> defaultTemperature srv | Some t \<Rightarrow> t);
          maxTok = (case max_tokens params of None \<Rightarrow> defaultMaxTokens srv | Some t \<Rightarrow> t);
          strm = (case stream params of None \<Rightarrow> False | Some b \<Rightarrow> b)
      in case messages params of
           None \<Rightarrow>
             (Throws (Raw (PlainError (js ''Messages array is required and must not be empty'')
                             None)), 0)
         | Some msgs \<Rightarrow>
             if msgs = [] then
               (Throws (Raw (PlainError (js ''Messages array is required and must not be empty'')
                               None)), 0)
             else
               let processedMessages = processLongMessages msgs mdl;
                   requestData = \<lparr>req_model = mdl, req_messages = processedMessages,
                                  req_temperature = temp, req_num_predict = maxTok,
                                  req_stream = strm\<rparr>
               in case retryRequestJs (maxRetries srv)
                         (\<lambda>calls. post calls (js ''/api/chat'') requestData) of
                    (Throws e, calls) \<Rightarrow> (catchChatJs e, calls)
                  | (Unmodelled, calls) \<Rightarrow> (Unmodelled, calls)
                  | (Returns response_data, calls) \<Rightarrow>
                      (case contentLength response_data of
                         Throws e \<Rightarrow> (catchChatJs e, calls)
                       | Unmodelled \<Rightarrow> (Unmodelled, calls)
                       | Returns n \<Rightarrow>
                           (Returns \<lparr>js_success = True, js_data = response_data,
                                     js_model = mdl,
                                     js_usage = \<lparr>prompt_tokens = countTokensMessages msgs,
                                                  completion_tokens = n,
                                                  total_tokens = countTokensMessages msgs + n\<rparr>\<rparr>,
                            calls)))"

section \<open>Properties of the token estimate and the context budget\<close>

subsection \<open>Arithmetic of the estimates\<close>

lemma floor_seven_tenths: "\<lfloor>of_int n * (7 / 10 :: rat)\<rfloor> = (n * 7) div 10"
proof -
  have "of_int n * (7 / 10 :: rat) = of_int (n * 7) / of_int 10" by simp
  then show ?thesis by (simp only: floor_divide_of_int_eq)
qed

lemma floor_eight_tenths: "\<lfloor>of_int n * (8 / 10 :: rat)\<rfloor> = (n * 4) div 5"
proof -
  have "of_int n * (8 / 10 :: rat) = of_int (n * 4) / of_int 5" by simp
  then show ?thesis by (simp only: floor_divide_of_int_eq)
qed

lemma ceiling_tokens:
  "\<lceil>of_nat w * (13 / 10) + of_nat c * (1 / 4 :: rat)\<rceil> = (26 * int w + 5 * int c + 19) div 20"
proof -
  have "of_nat w * (13 / 10) + of_nat c * (1 / 4 :: rat) = of_int (26 * int w + 5 * int c) / of_int 20"
    by simp
  then have "\<lceil>of_nat w * (13 / 10) + of_nat c * (1 / 4 :: rat)\<rceil> = - ((- (26 * int w + 5 * int c)) div 20)"
    by (simp only: ceiling_divide_eq_div)
  then show ?thesis by linarith
qed

lemma countTokens_div:
  "countTokens text =
     (26 * int (length (filter (\<lambda>word. length word > 0) (splitWhitespace text))) + 5 * int (length text) + 19) div 20"
  unfolding countTokens_def Let_def by (rule ceiling_tokens)

lemma countTokens_ge: "int (length text) \<le> 4 * countTokens text"
  unfolding countTokens_div by linarith

lemma countTokens_nonneg: "0 \<le> countTokens text"
  unfolding countTokens_div by linarith

lemma maxTokens_div:
  "maxTokens mdl =
     (case contextLimits mdl of
        Number n \<Rightarrow> Some (((if n = 0 then 4096 else n) * 7) div 10)
      | Inherited \<Rightarrow> None
      | Undefined \<Rightarrow> Some 2867)"
  unfolding maxTokens_def floor_seven_tenths by (simp split: property.splits)

lemma maxTokens_cases:
  "maxTokens mdl = Some mt \<Longrightarrow> mt = 2867 \<or> mt = 5734 \<or> mt = 11468 \<or> mt = 1433"
  unfolding maxTokens_div contextLimits_def by (simp split: if_splits)

lemma maxTokens_constructor: "maxTokens (js ''constructor'') = None"
  by (simp add: maxTokens_def contextLimits_def js_def cu_def)

lemma maxTokens_phi: "maxTokens (js ''phi'') = Some 1433"
  unfolding maxTokens_div by (simp add: contextLimits_def js_def cu_def)

lemma splitWhitespace_word:
  assumes "\<forall>c \<in> set s. \<not> isWhiteSpace c"
  shows "splitWhitespace s = [s]"
proof -
  have "takeWhile (\<lambda>c. \<not> isWhiteSpace c) s = s" "dropWhile (\<lambda>c. \<not> isWhiteSpace c) s = []"
    using assms by auto
  then show ?thesis by (subst splitWhitespace.simps) simp
qed

lemma countTokens_word:
  assumes "\<forall>c \<in> set s. \<not> isWhiteSpace c" and "s \<noteq> []"
  shows "countTokens s = (5 * int (length s) + 45) div 20"
  unfolding countTokens_div splitWhitespace_word [OF assms(1)] using assms(2) by simp

lemma not_space_a: "\<not> isWhiteSpace (cu CHR ''a'')"
  by (simp add: isWhiteSpace_def cu_def)

lemma countTokens_Hi: "countTokens (js ''Hi'') = 2"
  by (subst countTokens_word) (simp_all add: js_def cu_def isWhiteSpace_def)

lemma countTokens_replicate_a:
  "0 < n \<Longrightarrow> countTokens (replicate n (cu CHR ''a'')) = (5 * int n + 45) div 20"
  by (subst countTokens_word) (simp_all add: not_space_a)

subsection \<open>Fitting a prompt\<close>

lemma substring_zero: "substring s 0 b = take (nat b) s"
proof -
  have "clampIndex s b = min (nat b) (length s)"
    by (simp add: clampIndex_def)
  then show ?thesis
    by (simp add: substring_def clampIndex_def Let_def min_def)
qed

lemma substringFrom_drop: "substringFrom s a = drop (nat a) s"
proof (cases "nat a \<le> length s")
  case True
  then have "clampIndex s a = nat a" by (simp add: clampIndex_def)
  then show ?thesis by (simp add: substringFrom_def)
next
  case False
  then have "clampIndex s a = length s" by (simp add: clampIndex_def)
  with False show ?thesis by (simp add: substringFrom_def)
qed

lemma length_truncationMarker: "length truncationMarker = 45"
  by (simp add: truncationMarker_def js_def)

lemma processLongPrompt_long:
  assumes "maxTokens mdl = Some budget" and "4 * budget < int (length s)"
  shows "processLongPrompt s mdl =
           take (nat ((16 * budget) div 5)) s @ truncationMarker @
           drop (length s - nat (4 * budget - (16 * budget) div 5 - 100)) s"
proof -
  have big: "budget < countTokens s"
    using assms(2) countTokens_ge [of s] by linarith
  have "nat (int (length s) - (4 * budget - (16 * budget) div 5 - 100)) =
        length s - nat (4 * budget - (16 * budget) div 5 - 100)"
    using maxTokens_cases [OF assms(1)] by auto
  with big assms show ?thesis
    unfolding processLongPrompt_def Let_def floor_eight_tenths
    by (simp add: substring_zero substringFrom_drop mult.commute)
qed

text \<open>
  Claim C1, as amended. For every model whose budget \<open>floor(limit * 0.7)\<close> is a number and
  every prompt \<open>s\<close> whose estimate exceeds the budget and whose length exceeds
  \<open>4 * budget\<close> characters, \<open>processLongPrompt\<close> returns a string strictly shorter than
  \<open>s\<close> that consists of a non-empty prefix of \<open>s\<close>, the truncation marker and a non-empty
  suffix of \<open>s\<close>.
\<close>

theorem processLongPrompt_truncates:
  assumes "maxTokens mdl = Some budget"
    and "budget < countTokens s"
    and "4 * budget < int (length s)"
  shows "length (processLongPrompt s mdl) < length s \<and>
         (\<exists>p q. processLongPrompt s mdl = p @ truncationMarker @ q \<and>
                p \<noteq> [] \<and> q \<noteq> [] \<and> prefix p s \<and> suffix q s)"
proof -
  let ?tp = "nat ((16 * budget) div 5)"
  let ?ep = "nat (4 * budget - (16 * budget) div 5 - 100)"
  let ?p = "take ?tp s" and ?q = "drop (length s - ?ep) s"
  have eq: "processLongPrompt s mdl = ?p @ truncationMarker @ ?q"
    using assms(1,3) by (rule processLongPrompt_long)
  have b: "1433 \<le> budget" using maxTokens_cases [OF assms(1)] by auto
  have tp: "0 < ?tp" "?tp < length s" using b assms(3) by linarith+
  have ep: "0 < ?ep" "?ep < length s" using b assms(3) by linarith+
  have sum: "int ?tp + int ?ep + 45 < int (length s)" using b assms(3) by linarith
  have "length (?p @ truncationMarker @ ?q) < length s"
    using tp ep sum by (simp add: length_truncationMarker)
  moreover have "?p \<noteq> []" using tp by auto
  moreover have "?q \<noteq> []" using ep by auto
  moreover have "prefix ?p s" by (rule take_is_prefix)
  moreover have "suffix ?q s" by (rule suffix_drop)
  ultimately show ?thesis unfolding eq by blast
qed

theorem processLongPrompt_truncates_witness:
  "maxTokens (js ''phi'') = Some 1433 \<and>
   1433 < countTokens (replicate 6000 (cu CHR ''a'')) \<and>
   4 * 1433 < int (length (replicate 6000 (cu CHR ''a''))) \<and>
   length (processLongPrompt (replicate 6000 (cu CHR ''a'')) (js ''phi'')) < 6000"
proof -
  have ct: "countTokens (replicate 6000 (cu CHR ''a'')) = 1502"
    by (subst countTokens_word) (simp_all add: not_space_a)
  have h2: "1433 < countTokens (replicate 6000 (cu CHR ''a''))" by (simp add: ct)
  have h3: "4 * 1433 < int (length (replicate 6000 (cu CHR ''a'')))" by simp
  show ?thesis
    using processLongPrompt_truncates [OF maxTokens_phi h2 h3] maxTokens_phi h2 by simp
qed

text \<open>
  The claim without the length condition fails: a prompt of 5732 letters for the model
  \<open>phi\<close> has an estimate of 1435 tokens, above the budget of 1433, and is returned unchanged
  by the guard \<open>prompt.length <= maxChars\<close>.
\<close>

theorem processLongPrompt_unchanged_counterexample:
  "maxTokens (js ''phi'') = Some 1433 \<and>
   1433 < countTokens (replicate 5732 (cu CHR ''a'')) \<and>
   \<not> length (processLongPrompt (replicate 5732 (cu CHR ''a'')) (js ''phi''))
       < length (replicate 5732 (cu CHR ''a''))"
proof -
  have ct: "countTokens (replicate 5732 (cu CHR ''a'')) = 1435"
    by (subst countTokens_word) (simp_all add: not_space_a)
  have "processLongPrompt (replicate 5732 (cu CHR ''a'')) (js ''phi'') = replicate 5732 (cu CHR ''a'')"
    by (simp add: processLongPrompt_def maxTokens_phi ct Let_def)
  with ct show ?thesis by (simp add: maxTokens_phi)
qed

text \<open>
  For every model whose budget is a number, \<open>processLongPrompt\<close> is idempotent: a truncated
  prompt has \<open>4 * budget - 55\<close> characters and is returned unchanged by one of the two guards.
\<close>

lemma processLongPrompt_idem:
  assumes "maxTokens mdl = Some budget"
  shows "processLongPrompt (processLongPrompt s mdl) mdl = processLongPrompt s mdl"
proof (cases "4 * budget < int (length s)")
  case False
  then have "processLongPrompt s mdl = s"
    using assms by (simp add: processLongPrompt_def Let_def)
  then show ?thesis by simp
next
  case True
  let ?r = "processLongPrompt s mdl"
  have b: "1433 \<le> budget" using maxTokens_cases [OF assms] by auto
  have "?r = take (nat ((16 * budget) div 5)) s @ truncationMarker @
           drop (length s - nat (4 * budget - (16 * budget) div 5 - 100)) s"
    using assms True by (rule processLongPrompt_long)
  then have "int (length ?r) \<le> 4 * budget"
    using b True by (simp add: length_truncationMarker)
  then show ?thesis
    using assms by (simp add: processLongPrompt_def [of ?r] Let_def)
qed

text \<open>
  Claim C2. Idempotence of \<open>processLongPrompt\<close> fails for a model name that is a property
  inherited from \<open>Object.prototype\<close>: the lookup is truthy, the budget is \<open>NaN\<close>, no guard
  holds, and each application puts one more truncation marker in front of the prompt.
  Evaluated at the prompt \<open>x\<close> and the model \<open>constructor\<close>.
\<close>

theorem processLongPrompt_not_idempotent_inherited:
  "processLongPrompt (js ''x'') (js ''constructor'') = truncationMarker @ js ''x'' \<and>
   processLongPrompt (processLongPrompt (js ''x'') (js ''constructor'')) (js ''constructor'')
     = truncationMarker @ truncationMarker @ js ''x'' \<and>
   processLongPrompt (processLongPrompt (js ''x'') (js ''constructor'')) (js ''constructor'')
     \<noteq> processLongPrompt (js ''x'') (js ''constructor'')"
proof -
  have "truncationMarker \<noteq> []" by (simp add: truncationMarker_def js_def)
  then show ?thesis by (simp add: processLongPrompt_def maxTokens_constructor)
qed

subsection \<open>Fitting a message sequence\<close>

lemma foldl_tokens:
  "foldl (\<lambda>total m. total + countTokens (content m)) a ms =
     a + sum_list (map (\<lambda>m. countTokens (content m)) ms)"
  by (induction ms arbitrary: a) simp_all

lemma countTokensMessages_sum:
  "countTokensMessages ms = sum_list (map (\<lambda>m. countTokens (content m)) ms)"
  by (simp add: countTokensMessages_def foldl_tokens)

lemma countTokensMessages_Nil: "countTokensMessages [] = 0"
  by (simp add: countTokensMessages_sum)

lemma countTokensMessages_Cons:
  "countTokensMessages (m # ms) = countTokens (content m) + countTokensMessages ms"
  by (simp add: countTokensMessages_sum)

lemma pushRecent_prefix:
  "\<exists>k \<le> length ms.
     (0 < k \<longrightarrow> countTokensMessages (take k ms) \<le> r) \<and>
     (k < length ms \<longrightarrow> r < countTokensMessages (take (Suc k) ms)) \<and>
     pushRecent (Some r) ms =
       take k ms @
       (if k < length ms
        then [(ms ! k)\<lparr>content :=
                truncateText (content (ms ! k)) (Some ((r - countTokensMessages (take k ms)) * 4)) @
                js ''\<newline>[... message truncated due to length ...]''\<rparr>]
        else [])"
proof (induction ms arbitrary: r)
  case Nil
  show ?case by simp
next
  case (Cons m ms)
  let ?t = "countTokens (content m)"
  show ?case
  proof (cases "?t \<le> r")
    case False
    then show ?thesis
      by (intro exI [of _ 0]) (simp add: countTokensMessages_Cons countTokensMessages_Nil Let_def)
  next
    case True
    from Cons.IH [of "r - ?t"] obtain k where k: "k \<le> length ms"
      and fit: "0 < k \<longrightarrow> countTokensMessages (take k ms) \<le> r - ?t"
      and nofit: "k < length ms \<longrightarrow> r - ?t < countTokensMessages (take (Suc k) ms)"
      and eq: "pushRecent (Some (r - ?t)) ms =
         take k ms @
         (if k < length ms
          then [(ms ! k)\<lparr>content :=
                  truncateText (content (ms ! k)) (Some ((r - ?t - countTokensMessages (take k ms)) * 4)) @
                  js ''\<newline>[... message truncated due to length ...]''\<rparr>]
          else [])"
      by blast
    have fit': "countTokensMessages (take (Suc k) (m # ms)) \<le> r"
      using True fit by (cases "k = 0") (simp_all add: countTokensMessages_Cons countTokensMessages_Nil)
    have sub: "r - countTokensMessages (take (Suc k) (m # ms)) = r - ?t - countTokensMessages (take k ms)"
      by (simp add: countTokensMessages_Cons)
    have nofit': "Suc k < length (m # ms) \<longrightarrow> r < countTokensMessages (take (Suc (Suc k)) (m # ms))"
      using nofit by (auto simp add: countTokensMessages_Cons)
    have "pushRecent (Some r) (m # ms) = m # pushRecent (Some (r - ?t)) ms"
      using True by (simp add: Let_def)
    also have "\<dots> = take (Suc k) (m # ms) @
         (if Suc k < length (m # ms)
          then [((m # ms) ! Suc k)\<lparr>content :=
                  truncateText (content ((m # ms) ! Suc k))
                    (Some ((r - countTokensMessages (take (Suc k) (m # ms))) * 4)) @
                  js ''\<newline>[... message truncated due to length ...]''\<rparr>]
          else [])"
      unfolding eq sub by simp
    finally show ?thesis
      using k fit' nofit' by (intro exI [of _ "Suc k"]) simp
  qed
qed

text \<open>
  What \<open>processLongMessages\<close> computes for a message sequence whose estimate exceeds the
  budget: all system messages, followed by a selection from the (at most) 3 most recent
  non-system messages, taken in array order, oldest first. The first \<open>k\<close> of them are kept
  unchanged, each fitting the budget that remains after the system messages and the messages
  before it; the next one, the first that does not fit, is kept with its content truncated
  to 4 characters per remaining token plus the notice, and there the loop ends.
\<close>

theorem processLongMessages_over_budget:
  assumes "maxTokens mdl = Some budget"
    and "budget < countTokensMessages msgs"
  shows "length (recentMessages msgs) \<le> 3 \<and>
    (\<exists>k \<le> length (recentMessages msgs).
       (0 < k \<longrightarrow>
          countTokensMessages (take k (recentMessages msgs))
            \<le> budget - countTokensMessages (systemMessages msgs)) \<and>
       (k < length (recentMessages msgs) \<longrightarrow>
          budget - countTokensMessages (systemMessages msgs)
            < countTokensMessages (take (Suc k) (recentMessages msgs))) \<and>
       processLongMessages msgs mdl =
         systemMessages msgs @ take k (recentMessages msgs) @
         (if k < length (recentMessages msgs)
          then [(recentMessages msgs ! k)\<lparr>content :=
                  truncateText (content (recentMessages msgs ! k))
                    (Some ((budget - countTokensMessages (systemMessages msgs)
                             - countTokensMessages (take k (recentMessages msgs))) * 4)) @
                  js ''\<newline>[... message truncated due to length ...]''\<rparr>]
          else []))"
proof
  show "length (recentMessages msgs) \<le> 3"
    by (simp add: recentMessages_def)
next
  have "processLongMessages msgs mdl =
          systemMessages msgs @
          pushRecent (Some (budget - countTokensMessages (systemMessages msgs)))
            (recentMessages msgs)"
    using assms by (simp add: processLongMessages_def Let_def)
  then show "\<exists>k \<le> length (recentMessages msgs).
       (0 < k \<longrightarrow>
          countTokensMessages (take k (recentMessages msgs))
            \<le> budget - countTokensMessages (systemMessages msgs)) \<and>
       (k < length (recentMessages msgs) \<longrightarrow>
          budget - countTokensMessages (systemMessages msgs)
            < countTokensMessages (take (Suc k) (recentMessages msgs))) \<and>
       processLongMessages msgs mdl =
         systemMessages msgs @ take k (recentMessages msgs) @
         (if k < length (recentMessages msgs)
          then [(recentMessages msgs ! k)\<lparr>content :=
                  truncateText (content (recentMessages msgs ! k))
                    (Some ((budget - countTokensMessages (systemMessages msgs)
                             - countTokensMessages (take k (recentMessages msgs))) * 4)) @
                  js ''\<newline>[... message truncated due to length ...]''\<rparr>]
          else [])"
    using pushRecent_prefix [of "recentMessages msgs"
        "budget - countTokensMessages (systemMessages msgs)"]
    by simp
qed

theorem processLongMessages_over_budget_witness:
  "maxTokens (js ''phi'') = Some 1433 \<and>
   1433 < countTokensMessages
     [\<lparr>role = js ''system'', content = js ''Hi'', name = None\<rparr>,
      \<lparr>role = js ''user'', content = replicate 6000 (cu CHR ''a''), name = None\<rparr>] \<and>
   length (recentMessages
     [\<lparr>role = js ''system'', content = js ''Hi'', name = None\<rparr>,
      \<lparr>role = js ''user'', content = replicate 6000 (cu CHR ''a''), name = None\<rparr>]) \<le> 3"
proof -
  have h: "1433 < countTokensMessages
     [\<lparr>role = js ''system'', content = js ''Hi'', name = None\<rparr>,
      \<lparr>role = js ''user'', content = replicate 6000 (cu CHR ''a''), name = None\<rparr>]"
    by (simp add: countTokensMessages_Cons countTokensMessages_Nil countTokens_Hi
        countTokens_replicate_a)
  show ?thesis
    using processLongMessages_over_budget [OF maxTokens_phi h] maxTokens_phi h by blast
qed

text \<open>
  Claim C3. Over the budget, \<open>processLongMessages\<close> is to keep the system messages and then
  to process the 3 most recent non-system messages in recency order, most recent first,
  dropping those that do not fit; the comments of the source say as much (\<open>Keep system
  messages and recent messages, truncate middle ones\<close>, \<open>Keep the last few messages
  (conversation context)\<close>). The loop runs over them oldest first and ends at the first one
  that does not fit: with an assistant message of 6000 letters followed by the user message
  \<open>Hi\<close>, for the model \<open>phi\<close>, the older message is truncated and the most recent message,
  which fits the budget, is dropped.
\<close>

theorem processLongMessages_drops_most_recent:
  "maxTokens (js ''phi'') = Some 1433 \<and>
   1433 < countTokensMessages
     [\<lparr>role = js ''assistant'', content = replicate 6000 (cu CHR ''a''), name = None\<rparr>,
      \<lparr>role = js ''user'', content = js ''Hi'', name = None\<rparr>] \<and>
   countTokens (js ''Hi'') \<le> 1433 \<and>
   map role (processLongMessages
     [\<lparr>role = js ''assistant'', content = replicate 6000 (cu CHR ''a''), name = None\<rparr>,
      \<lparr>role = js ''user'', content = js ''Hi'', name = None\<rparr>] (js ''phi''))
     = [js ''assistant'']"
proof -
  have sys: "js ''assistant'' \<noteq> js ''system''" "js ''user'' \<noteq> js ''system''"
    by (simp_all add: js_def cu_def)
  show ?thesis
    by (simp add: processLongMessages_def maxTokens_phi countTokensMessages_Cons
        countTokensMessages_Nil countTokens_Hi countTokens_replicate_a systemMessages_def
        nonSystemMessages_def recentMessages_def sys Let_def)
qed

section \<open>Properties of the retrying transport\<close>

lemma retryLoop_fails_then_succeeds:
  assumes "int k < maxRetries srv"
    and "\<forall>i<k. \<exists>e. requestFn i (requestOptions srv options (int i + 1)) = Inl e"
    and "requestFn k (requestOptions srv options (int k + 1)) = Inr v"
    and "j \<le> k"
  shows "retryLoop srv requestFn options cid (int j + 1) le j = (Returns v, Suc k)"
  using assms(4)
proof (induction "k - j" arbitrary: j le)
  case 0
  then have "j = k" by simp
  then show ?case
    using assms(1,3) by (subst retryLoop.simps) simp
next
  case (Suc d)
  then have lt: "j < k" and step: "d = k - Suc j" by simp_all
  from lt assms(2) obtain e where e: "requestFn j (requestOptions srv options (int j + 1)) = Inl e"
    by blast
  have "retryLoop srv requestFn options cid (int j + 1) le j =
        retryLoop srv requestFn options cid (int (Suc j) + 1) (Some e) (Suc j)"
    using lt assms(1) e by (subst retryLoop.simps) (simp add: add.commute)
  also have "\<dots> = (Returns v, Suc k)"
    using Suc.hyps(1) [OF step] lt by simp
  finally show ?case .
qed

lemma retryLoopJs_fails_then_succeeds:
  assumes "int k < m"
    and "\<forall>i<k. \<exists>e. requestFn i = Inl e"
    and "requestFn k = Inr v"
    and "j \<le> k"
  shows "retryLoopJs m requestFn (int j + 1) le j = (Returns v, Suc k)"
  using assms(4)
proof (induction "k - j" arbitrary: j le)
  case 0
  then have "j = k" by simp
  then show ?case
    using assms(1,3) by (subst retryLoopJs.simps) simp
next
  case (Suc d)
  then have lt: "j < k" and step: "d = k - Suc j" by simp_all
  from lt assms(2) obtain e where e: "requestFn j = Inl e"
    by blast
  have "retryLoopJs m requestFn (int j + 1) le j =
        retryLoopJs m requestFn (int (Suc j) + 1) (Some e) (Suc j)"
    using lt assms(1) e by (subst retryLoopJs.simps) (simp add: add.commute)
  also have "\<dots> = (Returns v, Suc k)"
    using Suc.hyps(1) [OF step] lt by simp
  finally show ?case .
qed

text \<open>
  Claim C4. If \<open>requestFn\<close> fails on its first \<open>k\<close> invocations, with \<open>k < maxRetries\<close>, and
  succeeds on invocation \<open>k + 1\<close>, then \<open>retryRequest\<close> returns that success value and has
  invoked \<open>requestFn\<close> exactly \<open>k + 1\<close> times; in the TypeScript service and in the JavaScript
  service alike.
\<close>

theorem retryRequest_succeeds_after_failures:
  assumes "int k < maxRetries srv"
    and "\<forall>i<k. \<exists>e. requestFn i (requestOptions srv options (int i + 1)) = Inl e"
    and "requestFn k (requestOptions srv options (int k + 1)) = Inr v"
    and "int k < this_maxRetries"
    and "\<forall>i<k. \<exists>e. requestFnJs i = Inl e"
    and "requestFnJs k = Inr w"
  shows "retryRequest srv requestFn options cid = (Returns v, k + 1) \<and>
         retryRequestJs this_maxRetries requestFnJs = (Returns w, k + 1)"
proof -
  have "retryLoop srv requestFn options cid (int 0 + 1) None 0 = (Returns v, Suc k)"
    using assms(1,2,3) by (intro retryLoop_fails_then_succeeds) simp_all
  moreover have "retryLoopJs this_maxRetries requestFnJs (int 0 + 1) None 0 = (Returns w, Suc k)"
    using assms(4,5,6) by (intro retryLoopJs_fails_then_succeeds) simp_all
  ultimately show ?thesis
    by (simp add: retryRequest_def retryRequestJs_def)
qed

theorem retryRequest_succeeds_after_failures_witness:
  "retryRequest
     \<lparr>timeout = 30000, maxRetries = 3, defaultModel = js ''llama2'',
      defaultTemperature = 7 / 10, defaultMaxTokens = 2048\<rparr>
     (\<lambda>i options. if i < 2
        then Inl \<lparr>errorCode = Some (js ''ECONNRESET''), errorMessage = js ''socket hang up'',
                  responseStatus = None,
        responseData = None, request = True\<rparr>
        else Inr (js ''ok''))
     \<lparr>optTimeout = None, responseType = None\<rparr> (js ''req-1'') = (Returns (js ''ok''), 3) \<and>
   retryRequestJs 3
     (\<lambda>i. if i < 2
        then Inl \<lparr>errorCode = Some (js ''ECONNRESET''), errorMessage = js ''socket hang up'',
                  responseStatus = None,
        responseData = None, request = True\<rparr>
        else Inr (js ''ok'')) = (Returns (js ''ok''), 3)"
  using retryRequest_succeeds_after_failures [where k = 2 and this_maxRetries = 3
      and srv = "\<lparr>timeout = 30000, maxRetries = 3, defaultModel = js ''llama2'',
                    defaultTemperature = 7 / 10, defaultMaxTokens = 2048\<rparr>"
      and requestFn = "\<lambda>i options. if i < 2
        then Inl \<lparr>errorCode = Some (js ''ECONNRESET''), errorMessage = js ''socket hang up'',
                  responseStatus = None,
        responseData = None, request = True\<rparr>
        else Inr (js ''ok'')"
      and requestFnJs = "\<lambda>i. if i < 2
        then Inl \<lparr>errorCode = Some (js ''ECONNRESET''), errorMessage = js ''socket hang up'',
                  responseStatus = None,
        responseData = None, request = True\<rparr>
        else Inr (js ''ok'')"
      and v = "js ''ok''" and w = "js ''ok''"
      and options = "\<lparr>optTimeout = None, responseType = None\<rparr>" and cid = "js ''req-1''"]
  by simp

lemma retryLoop_always_fails:
  assumes "\<forall>i < nat (maxRetries srv). \<exists>e. requestFn i (requestOptions srv options (int i + 1)) = Inl e"
    and "j < nat (maxRetries srv)"
  shows "\<exists>e. requestFn (nat (maxRetries srv) - 1)
                (requestOptions srv options (maxRetries srv)) = Inl e \<and>
             retryLoop srv requestFn options cid (int j + 1) le j =
               ((if isTimeoutError e
                 then Throws (App (newTimeoutError (timeoutMessage srv) cid
                                     (timeoutOr options (timeout srv))))
                 else Throws (Raw (Rejected e))), nat (maxRetries srv))"
  using assms(2)
proof (induction "nat (maxRetries srv) - j" arbitrary: j le)
  case 0
  then show ?case by simp
next
  case (Suc d)
  from Suc.prems assms(1) obtain e
    where e: "requestFn j (requestOptions srv options (int j + 1)) = Inl e"
    by blast
  show ?case
  proof (cases "int j + 1 = maxRetries srv")
    case True
    then have j: "j = nat (maxRetries srv) - 1" "Suc j = nat (maxRetries srv)" by linarith+
    have "retryLoop srv requestFn options cid (int j + 1) le j =
          ((if isTimeoutError e
            then Throws (App (newTimeoutError (timeoutMessage srv) cid
                                (timeoutOr options (timeout srv))))
            else Throws (Raw (Rejected e))), nat (maxRetries srv))"
      using True e j(2) by (subst retryLoop.simps) (simp add: throwLastError_def)
    moreover have "requestFn (nat (maxRetries srv) - 1)
                (requestOptions srv options (maxRetries srv)) = Inl e"
      using e True j(1) by simp
    ultimately show ?thesis by blast
  next
    case False
    with Suc.prems have lt: "Suc j < nat (maxRetries srv)" by linarith
    have step: "d = nat (maxRetries srv) - Suc j" using Suc.hyps(2) by simp
    have le: "int j + 1 \<le> maxRetries srv" using lt by linarith
    have "retryLoop srv requestFn options cid (int j + 1) le j =
          retryLoop srv requestFn options cid (int (Suc j) + 1) (Some e) (Suc j)"
      using False le e by (subst retryLoop.simps) (simp add: add.commute)
    with Suc.hyps(1) [OF step lt, of "Some e"] show ?thesis by simp
  qed
qed

lemma isTimeoutError_example:
  "isTimeoutError \<lparr>errorCode = Some (js ''ECONNABORTED''),
      errorMessage = js ''timeout of 30000ms exceeded'', responseStatus = None,
      responseData = None, request = True\<rparr>"
  by (simp add: isTimeoutError_def)

text \<open>
  If \<open>maxRetries\<close> is at least 1 and \<open>requestFn\<close> fails with a timeout-classified error on
  every invocation, then \<open>retryRequest\<close> (TypeScript service) invokes it exactly
  \<open>maxRetries\<close> times and throws a \<open>TimeoutError\<close> that carries the configured timeout
  \<open>options.timeout || this.timeout\<close> and the correlation id.
\<close>

theorem retryRequest_always_timeout:
  assumes "1 \<le> maxRetries srv"
    and "\<forall>i < nat (maxRetries srv). \<exists>e.
           requestFn i (requestOptions srv options (int i + 1)) = Inl e \<and> isTimeoutError e"
  shows "retryRequest srv requestFn options cid =
           (Throws (App \<lparr>errorClass = TimeoutError, message = timeoutMessage srv,
                          statusCode = 408, code = js ''TIMEOUT_ERROR'', correlationId = cid,
                          errorTimeout = Some (timeoutOr options (timeout srv)),
                          service = None, cause = None\<rparr>),
            nat (maxRetries srv))"
proof -
  have all: "\<forall>i < nat (maxRetries srv). \<exists>e. requestFn i (requestOptions srv options (int i + 1)) = Inl e"
    using assms(2) by blast
  have pos: "0 < nat (maxRetries srv)" using assms(1) by simp
  have "\<exists>e. requestFn (nat (maxRetries srv) - 1)
                (requestOptions srv options (maxRetries srv)) = Inl e \<and>
             retryLoop srv requestFn options cid (int 0 + 1) None 0 =
               ((if isTimeoutError e
                 then Throws (App (newTimeoutError (timeoutMessage srv) cid
                                     (timeoutOr options (timeout srv))))
                 else Throws (Raw (Rejected e))), nat (maxRetries srv))"
    using all pos by (intro retryLoop_always_fails) simp_all
  then obtain e
    where e: "requestFn (nat (maxRetries srv) - 1) (requestOptions srv options (maxRetries srv)) = Inl e"
      and r: "retryLoop srv requestFn options cid 1 None 0 =
               ((if isTimeoutError e
                 then Throws (App (newTimeoutError (timeoutMessage srv) cid
                                     (timeoutOr options (timeout srv))))
                 else Throws (Raw (Rejected e))), nat (maxRetries srv))"
    by auto
  have "int (nat (maxRetries srv) - 1) + 1 = maxRetries srv" using assms(1) by simp
  with assms(2) pos e have "isTimeoutError e"
    by (metis Inl_inject diff_less zero_less_one)
  with r show ?thesis
    by (simp add: retryRequest_def newTimeoutError_def newAppError_def)
qed

theorem retryRequest_always_timeout_witness:
  "retryRequest
     \<lparr>timeout = 30000, maxRetries = 3, defaultModel = js ''llama2'',
      defaultTemperature = 7 / 10, defaultMaxTokens = 2048\<rparr>
     (\<lambda>i options. Inl \<lparr>errorCode = Some (js ''ECONNABORTED''),
        errorMessage = js ''timeout of 30000ms exceeded'', responseStatus = None,
        responseData = None, request = True\<rparr>)
     \<lparr>optTimeout = None, responseType = None\<rparr> (js ''req-1'') =
   (Throws (App \<lparr>errorClass = TimeoutError,
       message = js ''Request timeout after 3 attempts. The Ollama server took too long to respond.'',
       statusCode = 408, code = js ''TIMEOUT_ERROR'', correlationId = js ''req-1'',
       errorTimeout = Some 30000, service = None, cause = None\<rparr>), 3)"
proof -
  have d: "decimal 3 = js ''3''" by (subst decimal.simps) (simp add: js_def cu_def)
  show ?thesis
    using retryRequest_always_timeout [where cid = "js ''req-1''"
      and srv = "\<lparr>timeout = 30000, maxRetries = 3, defaultModel = js ''llama2'',
                    defaultTemperature = 7 / 10, defaultMaxTokens = 2048\<rparr>"
      and requestFn = "\<lambda>i options. Inl \<lparr>errorCode = Some (js ''ECONNABORTED''),
        errorMessage = js ''timeout of 30000ms exceeded'', responseStatus = None,
        responseData = None, request = True\<rparr>"
      and options = "\<lparr>optTimeout = None, responseType = None\<rparr>"]
      isTimeoutError_example
    by (simp add: timeoutMessage_def timeoutOr_def d js_def)
qed

lemma retryRequest_no_attempts:
  "maxRetries srv \<le> 0 \<Longrightarrow>
   retryRequest srv requestFn options cid = (Throws (Raw UndefinedValue), 0)"
  unfolding retryRequest_def by (subst retryLoop.simps) (simp add: throwLastError_def)

text \<open>
  Claim C5. A \<open>requestFn\<close> that fails with a timeout-classified error on every invocation is
  to be invoked exactly \<open>maxRetries\<close> times, and the transport is then to fail with a
  \<open>TimeoutError\<close> carrying the configured timeout and the correlation id. With
  \<open>OLLAMA_MAX_RETRIES=0\<close> the loop of \<open>retryRequest\<close> (TypeScript service) never runs:
  \<open>requestFn\<close> is not invoked, and \<open>throw lastError!\<close> throws \<open>undefined\<close>, no \<open>TimeoutError\<close>,
  although the source asserts that \<open>lastError\<close> is set.
\<close>

theorem retryRequest_zero_retries_throws_undefined:
  "isTimeoutError \<lparr>errorCode = Some (js ''ECONNABORTED''),
      errorMessage = js ''timeout of 30000ms exceeded'', responseStatus = None,
      responseData = None, request = True\<rparr> \<and>
   retryRequest
     \<lparr>timeout = 30000, maxRetries = 0, defaultModel = js ''llama2'',
      defaultTemperature = 7 / 10, defaultMaxTokens = 2048\<rparr>
     (\<lambda>i options. Inl \<lparr>errorCode = Some (js ''ECONNABORTED''),
        errorMessage = js ''timeout of 30000ms exceeded'', responseStatus = None,
        responseData = None, request = True\<rparr>)
     \<lparr>optTimeout = None, responseType = None\<rparr> (js ''req-1'') =
   (Throws (Raw UndefinedValue), 0)"
  using isTimeoutError_example
  by (simp add: retryRequest_no_attempts)

section \<open>Properties of \<open>JSON.parse\<close>\<close>

text \<open>Every parser consumes input: what is left is shorter than what it was given.\<close>

lemma skipWs_length: "length (skipWs s) \<le> length s"
  by (simp add: skipWs_def length_dropWhile_le)

lemma skipWs_Cons_length: "skipWs s = d # ds \<Longrightarrow> length ds < length s"
  using skipWs_length [of s] by simp

lemma parseString_shorter: "parseString s = Some (str, r) \<Longrightarrow> length r < length s"
proof (induction "length s" arbitrary: s str r rule: less_induct)
  case less
  show ?case
  proof (cases s)
    case Nil
    with less.prems show ?thesis by simp
  next
    case (Cons c cs)
    have "r = cs \<or> (\<exists>s' str'. length s' \<le> length cs \<and> parseString s' = Some (str', r))"
    proof (cases "c = 0x22")
      case True
      with less.prems Cons show ?thesis by simp
    next
      case nq: False
      show ?thesis
      proof (cases "c = 0x5C")
        case False
        with nq less.prems Cons obtain str' where "parseString cs = Some (str', r)"
          by (auto split: if_splits)
        then show ?thesis by auto
      next
        case bs: True
        show ?thesis
        proof (cases cs)
          case Nil
          with less.prems nq bs Cons show ?thesis by simp
        next
          case es: (Cons e es)
          show ?thesis
          proof (cases "e = cu CHR ''u''")
            case False
            with less.prems nq bs Cons es obtain str' where "parseString es = Some (str', r)"
              by (auto split: option.splits)
            with es show ?thesis by (intro disjI2 exI [of _ es] exI [of _ str']) auto
          next
            case True
            with less.prems nq bs Cons es obtain h1 h2 h3 h4 rest str'
              where "es = h1 # h2 # h3 # h4 # rest" "parseString rest = Some (str', r)"
              by (auto split: list.splits option.splits)
            with es show ?thesis by (intro disjI2 exI [of _ rest] exI [of _ str']) auto
          qed
        qed
      qed
    qed
    then show ?thesis
    proof
      assume "r = cs"
      with Cons show ?thesis by simp
    next
      assume "\<exists>s' str'. length s' \<le> length cs \<and> parseString s' = Some (str', r)"
      then obtain s' str' where s': "length s' \<le> length cs" "parseString s' = Some (str', r)"
        by blast
      with Cons have "length s' < length s" by simp
      from less.hyps [OF this s'(2)] s'(1) Cons show ?thesis by simp
    qed
  qed
qed

lemma digitsThen_shorter: "digitsThen s = Some (ds, r) \<Longrightarrow> length r < length s"
proof -
  assume a: "digitsThen s = Some (ds, r)"
  then have ne: "takeWhile isDigit s \<noteq> []" and r: "r = dropWhile isDigit s"
    by (auto simp: digitsThen_def split: if_splits)
  have "length (takeWhile isDigit s) + length (dropWhile isDigit s) = length s"
    by (metis length_append takeWhile_dropWhile_id)
  with ne r show ?thesis by (cases "takeWhile isDigit s") auto
qed

lemma parseInteger_shorter: "parseInteger s = Some (i, r) \<Longrightarrow> length r < length s"
  by (auto simp: parseInteger_def split: list.splits if_splits dest: digitsThen_shorter)

lemma parseFraction_shorter: "parseFraction s = Some (f, r) \<Longrightarrow> length r \<le> length s"
  by (auto simp: parseFraction_def split: list.splits if_splits dest!: digitsThen_shorter)

lemma parseExponent_shorter: "parseExponent s = Some (e, r) \<Longrightarrow> length r \<le> length s"
  by (auto simp: parseExponent_def split: list.splits if_splits dest!: digitsThen_shorter)

lemma parseNumber_shorter: "parseNumber s = Some (lexeme, r) \<Longrightarrow> length r < length s"
proof -
  assume "parseNumber s = Some (lexeme, r)"
  then obtain k i r1 f r2 e where "parseInteger (drop k s) = Some (i, r1)"
    "parseFraction r1 = Some (f, r2)" "parseExponent r2 = Some (e, r)"
    by (auto simp: parseNumber_def Let_def split: option.splits)
  then have "length r1 < length (drop k s)" "length r2 \<le> length r1" "length r \<le> length r2"
    by (auto dest: parseInteger_shorter parseFraction_shorter parseExponent_shorter)
  then show ?thesis by simp
qed

lemma parseValue_Suc_shorter:
  assumes mem: "\<And>s ms r. parseMembers n s = Some (ms, r) \<Longrightarrow> length r < length s"
    and elem: "\<And>s vs r. parseElements n s = Some (vs, r) \<Longrightarrow> length r < length s"
    and p: "parseValue (Suc n) s = Some (v, r)"
  shows "length r < length s"
proof (cases s)
  case Nil
  with p show ?thesis by simp
next
  case (Cons c cs)
  consider (obj) "c = cu CHR ''{''"
    | (arr) "c \<noteq> cu CHR ''{''" "c = cu CHR ''[''"
    | (str) "c \<noteq> cu CHR ''{''" "c \<noteq> cu CHR ''[''" "c = 0x22"
    | (lit) "c \<noteq> cu CHR ''{''" "c \<noteq> cu CHR ''[''" "c \<noteq> 0x22"
    by blast
  then show ?thesis
  proof cases
    case obj
    with p Cons obtain d ds where ws: "skipWs cs = d # ds"
      and alt: "r = ds \<or> (\<exists>ms. parseMembers n (d # ds) = Some (ms, r))"
      by (auto split: list.splits if_splits)
    from alt have "length r \<le> length ds \<or> length r < length (d # ds)"
      using mem [of "d # ds"] by auto
    with ws skipWs_length [of cs] Cons show ?thesis by auto
  next
    case arr
    with p Cons obtain d ds where ws: "skipWs cs = d # ds"
      and alt: "r = ds \<or> (\<exists>vs. parseElements n (d # ds) = Some (vs, r))"
      by (auto split: list.splits if_splits)
    from alt have "length r \<le> length ds \<or> length r < length (d # ds)"
      using elem [of "d # ds"] by auto
    with ws skipWs_length [of cs] Cons show ?thesis by auto
  next
    case str
    with p Cons obtain x where "parseString cs = Some (x, r)" by auto
    with Cons show ?thesis by (auto dest: parseString_shorter)
  next
    case lit
    with p Cons have "r = drop 4 s \<or> r = drop 5 s \<or> (\<exists>l. parseNumber s = Some (l, r))"
      by (auto split: if_splits)
    with Cons show ?thesis by (auto dest: parseNumber_shorter)
  qed
qed

lemma parseElements_Suc_shorter:
  assumes val: "\<And>s v r. parseValue n s = Some (v, r) \<Longrightarrow> length r < length s"
    and elem: "\<And>s vs r. parseElements n s = Some (vs, r) \<Longrightarrow> length r < length s"
    and p: "parseElements (Suc n) s = Some (vs, r)"
  shows "length r < length s"
proof -
  from p obtain v r0 d ds where v: "parseValue n s = Some (v, r0)" and ws: "skipWs r0 = d # ds"
    and alt: "r = ds \<or> (\<exists>vs'. parseElements n (skipWs ds) = Some (vs', r))"
    by (auto split: option.splits list.splits if_splits)
  from alt have "length r \<le> length ds"
    using elem [of "skipWs ds"] skipWs_length [of ds] by auto
  with val [OF v] skipWs_Cons_length [OF ws] show ?thesis by simp
qed

lemma parseMembers_Suc_shorter:
  assumes val: "\<And>s v r. parseValue n s = Some (v, r) \<Longrightarrow> length r < length s"
    and mem: "\<And>s ms r. parseMembers n s = Some (ms, r) \<Longrightarrow> length r < length s"
    and p: "parseMembers (Suc n) s = Some (ms, r)"
  shows "length r < length s"
proof -
  from p obtain q qs key r0 colon r1 v r2 d ds
    where s: "s = q # qs" and k: "parseString qs = Some (key, r0)"
      and ws0: "skipWs r0 = colon # r1"
      and v: "parseValue n (skipWs r1) = Some (v, r2)"
      and ws2: "skipWs r2 = d # ds"
      and alt: "r = ds \<or> (\<exists>ms'. parseMembers n (skipWs ds) = Some (ms', r))"
    by (auto split: option.splits list.splits if_splits)
  from alt have "length r \<le> length ds"
    using mem [of "skipWs ds"] skipWs_length [of ds] by auto
  moreover have "length ds < length r2" by (rule skipWs_Cons_length [OF ws2])
  moreover have "length r2 < length (skipWs r1)" by (rule val [OF v])
  moreover have "length (skipWs r1) \<le> length r1" by (rule skipWs_length)
  moreover have "length r1 < length r0" by (rule skipWs_Cons_length [OF ws0])
  moreover have "length r0 < length qs" by (rule parseString_shorter [OF k])
  ultimately show ?thesis using s by simp
qed

lemma parse_shorter:
  "(\<forall>s v r. parseValue n s = Some (v, r) \<longrightarrow> length r < length s) \<and>
   (\<forall>s vs r. parseElements n s = Some (vs, r) \<longrightarrow> length r < length s) \<and>
   (\<forall>s ms r. parseMembers n s = Some (ms, r) \<longrightarrow> length r < length s)"
proof (induction n)
  case 0
  show ?case by simp
next
  case (Suc n)
  then show ?case
    by (blast intro: parseValue_Suc_shorter parseElements_Suc_shorter parseMembers_Suc_shorter)
qed

lemma parseValue_shorter: "parseValue n s = Some (v, r) \<Longrightarrow> length r < length s"
  using parse_shorter [of n] by blast

text \<open>
  The bound on nested calls is never the reason for a result: from \<open>2 * length s + 2\<close> on
  (and one more for elements and members), a larger bound gives the same result.
\<close>

lemma parseValue_Suc_stable:
  assumes mem: "\<And>s. 2 * length s + 3 \<le> n \<Longrightarrow> parseMembers (Suc n) s = parseMembers n s"
    and elem: "\<And>s. 2 * length s + 3 \<le> n \<Longrightarrow> parseElements (Suc n) s = parseElements n s"
    and b: "2 * length s + 2 \<le> Suc n"
  shows "parseValue (Suc (Suc n)) s = parseValue (Suc n) s"
proof (cases s)
  case Nil
  then show ?thesis by simp
next
  case (Cons c cs)
  show ?thesis
  proof (cases "skipWs cs")
    case Nil
    with Cons show ?thesis by simp
  next
    case ws: (Cons d ds)
    with skipWs_length [of cs] Cons b have len: "2 * Suc (length ds) + 3 \<le> n" by simp
    have m: "parseMembers (Suc n) x = parseMembers n x" if "length x = Suc (length ds)" for x
      using that len by (intro mem) simp
    have e: "parseElements (Suc n) x = parseElements n x" if "length x = Suc (length ds)" for x
      using that len by (intro elem) simp
    from Cons ws show ?thesis
      by (simp add: m e del: parseElements.simps parseMembers.simps)
  qed
qed

lemma parseElements_Suc_stable:
  assumes val: "\<And>s. 2 * length s + 2 \<le> n \<Longrightarrow> parseValue (Suc n) s = parseValue n s"
    and elem: "\<And>s. 2 * length s + 3 \<le> n \<Longrightarrow> parseElements (Suc n) s = parseElements n s"
    and b: "2 * length s + 3 \<le> Suc n"
  shows "parseElements (Suc (Suc n)) s = parseElements (Suc n) s"
proof -
  from b have v: "parseValue (Suc n) s = parseValue n s" by (intro val) simp
  show ?thesis
  proof (cases "parseValue n s")
    case None
    with v show ?thesis
      by (subst parseElements.simps(2) [of "Suc n" s], subst parseElements.simps(2) [of n s])
         (simp del: parseValue.simps parseElements.simps)
  next
    case (Some a)
    obtain x r0 where a: "a = (x, r0)" by (cases a)
    with Some have r0: "length r0 < length s" by (auto dest: parseValue_shorter)
    show ?thesis
    proof (cases "skipWs r0")
      case Nil
      with v Some a show ?thesis
        by (subst parseElements.simps(2) [of "Suc n" s], subst parseElements.simps(2) [of n s])
           (simp del: parseValue.simps parseElements.simps)
    next
      case (Cons d ds)
      from skipWs_Cons_length [OF Cons] r0 skipWs_length [of ds] b
      have "2 * length (skipWs ds) + 3 \<le> n" by simp
      then have "parseElements (Suc n) (skipWs ds) = parseElements n (skipWs ds)" by (rule elem)
      with v Some a Cons show ?thesis
        by (subst parseElements.simps(2) [of "Suc n" s], subst parseElements.simps(2) [of n s])
           (simp del: parseValue.simps parseElements.simps)
    qed
  qed
qed

lemma parseMembers_Suc_stable:
  assumes val: "\<And>s. 2 * length s + 2 \<le> n \<Longrightarrow> parseValue (Suc n) s = parseValue n s"
    and mem: "\<And>s. 2 * length s + 3 \<le> n \<Longrightarrow> parseMembers (Suc n) s = parseMembers n s"
    and b: "2 * length s + 3 \<le> Suc n"
  shows "parseMembers (Suc (Suc n)) s = parseMembers (Suc n) s"
proof (cases s)
  case Nil
  then show ?thesis
    by (subst parseMembers.simps(2) [of "Suc n" s], subst parseMembers.simps(2) [of n s]) simp
next
  case s: (Cons q qs)
  show ?thesis
  proof (cases "parseString qs")
    case None
    with s show ?thesis
      by (subst parseMembers.simps(2) [of "Suc n" s], subst parseMembers.simps(2) [of n s])
         (simp del: parseValue.simps parseMembers.simps)
  next
    case (Some a)
    obtain key r0 where a: "a = (key, r0)" by (cases a)
    with Some have r0: "length r0 < length qs" by (auto dest: parseString_shorter)
    show ?thesis
    proof (cases "skipWs r0")
      case Nil
      with s Some a show ?thesis
      by (subst parseMembers.simps(2) [of "Suc n" s], subst parseMembers.simps(2) [of n s])
         (simp del: parseValue.simps parseMembers.simps)
    next
      case ws0: (Cons colon r1)
      have r1: "length (skipWs r1) < length r0"
        using skipWs_Cons_length [OF ws0] skipWs_length [of r1] by simp
      with r0 s b have v: "parseValue (Suc n) (skipWs r1) = parseValue n (skipWs r1)"
        by (intro val) simp
      show ?thesis
      proof (cases "parseValue n (skipWs r1)")
        case None
        with v s Some a ws0 show ?thesis
      by (subst parseMembers.simps(2) [of "Suc n" s], subst parseMembers.simps(2) [of n s])
         (simp del: parseValue.simps parseMembers.simps)
      next
        case sv: (Some a2)
        obtain x r2 where a2: "a2 = (x, r2)" by (cases a2)
        with sv have r2: "length r2 < length (skipWs r1)" by (auto dest: parseValue_shorter)
        show ?thesis
        proof (cases "skipWs r2")
          case Nil
          with v s Some a ws0 sv a2 show ?thesis
      by (subst parseMembers.simps(2) [of "Suc n" s], subst parseMembers.simps(2) [of n s])
         (simp del: parseValue.simps parseMembers.simps)
        next
          case (Cons d ds)
          from skipWs_Cons_length [OF Cons] r2 r1 r0 s skipWs_length [of ds] b
          have "2 * length (skipWs ds) + 3 \<le> n" by simp
          then have "parseMembers (Suc n) (skipWs ds) = parseMembers n (skipWs ds)" by (rule mem)
          with v s Some a ws0 sv a2 Cons show ?thesis
      by (subst parseMembers.simps(2) [of "Suc n" s], subst parseMembers.simps(2) [of n s])
         (simp del: parseValue.simps parseMembers.simps)
        qed
      qed
    qed
  qed
qed

lemma parse_Suc_stable:
  "(\<forall>s. 2 * length s + 2 \<le> n \<longrightarrow> parseValue (Suc n) s = parseValue n s) \<and>
   (\<forall>s. 2 * length s + 3 \<le> n \<longrightarrow> parseElements (Suc n) s = parseElements n s) \<and>
   (\<forall>s. 2 * length s + 3 \<le> n \<longrightarrow> parseMembers (Suc n) s = parseMembers n s)"
proof (induction n)
  case 0
  show ?case by simp
next
  case (Suc n)
  then show ?case
    by (blast intro: parseValue_Suc_stable parseElements_Suc_stable parseMembers_Suc_stable)
qed

lemma parseValue_fuel:
  assumes "2 * length s + 2 \<le> n"
  shows "parseValue n s = parseValue (2 * length s + 2) s"
  using assms
proof (induction n rule: dec_induct)
  case base
  show ?case ..
next
  case (step n)
  with parse_Suc_stable [of n] show ?case by simp
qed

lemma JSON_parse_fuel:
  assumes "2 * length text + 2 \<le> n"
  shows "JSON_parse text =
           (case parseValue n (skipWs text) of
              None \<Rightarrow> None
            | Some (v, r) \<Rightarrow> if skipWs r = [] then Some v else None)"
proof -
  have "2 * length (skipWs text) + 2 \<le> 2 * length text + 2"
    using skipWs_length [of "text"] by simp
  then have "parseValue n (skipWs text) = parseValue (2 * length text + 2) (skipWs text)"
    using assms parseValue_fuel [of "skipWs text" n]
      parseValue_fuel [of "skipWs text" "2 * length text + 2"] by simp
  then show ?thesis by (simp add: JSON_parse_def)
qed

section \<open>Properties of the stream aggregation\<close>

lemma indexFrom_absent:
  "0 \<le> i \<Longrightarrow> indexFrom s c i = - 1 \<longleftrightarrow> c \<notin> set s"
proof (induction s arbitrary: i)
  case Nil
  show ?case by simp
next
  case (Cons x xs)
  from Cons.IH [of "i + 1"] Cons.prems show ?case by auto
qed

lemma indexOf_absent: "indexOf s c = - 1 \<longleftrightarrow> c \<notin> set s"
  unfolding indexOf_def by (rule indexFrom_absent) simp

lemma processBuffer_no_newline:
  "0x0A \<notin> set buffer \<Longrightarrow> processBuffer fullContent buffer = Returns (fullContent, buffer)"
  by (subst processBuffer.simps) (simp add: indexOf_absent)

lemma processBuffer_rest:
  "processBuffer fullContent buffer = Returns (fullContent', buffer') \<Longrightarrow> 0x0A \<notin> set buffer'"
proof (induction fullContent buffer rule: processBuffer.induct)
  case (1 fullContent buffer)
  show ?case
  proof (cases "indexOf buffer 0x0A = - 1")
    case True
    with "1.prems" show ?thesis
      by (subst (asm) processBuffer.simps) (simp add: indexOf_absent)
  next
    case False
    show ?thesis
    proof (cases "substring buffer 0 (indexOf buffer 0x0A) = []")
      case True
      with False "1.prems" "1.IH"(2) show ?thesis
        by (subst (asm) processBuffer.simps) simp
    next
      case ne: False
      from False ne "1.prems" obtain parsed fragment
        where p: "JSON_parse (substring buffer 0 (indexOf buffer 0x0A)) = Some parsed"
          and l: "lineContent parsed = Returns fragment"
          and r: "processBuffer (fullContent @ fragment)
                    (substringFrom buffer (indexOf buffer 0x0A + 1)) = Returns (fullContent', buffer')"
        by (subst (asm) processBuffer.simps) (simp split: option.splits outcome.splits)
      from "1.IH"(1) [OF False ne p l r] show ?thesis .
    qed
  qed
qed

lemma indexFrom_append:
  "c \<in> set b \<Longrightarrow> indexFrom (b @ t) c i = indexFrom b c i"
  by (induction b arbitrary: i) auto

lemma indexFrom_bounds:
  "c \<in> set b \<Longrightarrow> i \<le> indexFrom b c i \<and> indexFrom b c i < i + int (length b)"
proof (induction b arbitrary: i)
  case Nil
  then show ?case by simp
next
  case (Cons a b)
  show ?case
  proof (cases "a = c")
    case True
    then show ?thesis by simp
  next
    case False
    with Cons.prems have "c \<in> set b" by simp
    from Cons.IH [OF this, of "i + 1"] False show ?thesis by simp
  qed
qed

lemma processBuffer_append:
  "processBuffer fullContent (buffer @ t) =
     (case processBuffer fullContent buffer of
        Returns (fullContent', buffer') \<Rightarrow> processBuffer fullContent' (buffer' @ t)
      | Throws e \<Rightarrow> Throws e
      | Unmodelled \<Rightarrow> Unmodelled)"
proof (induction fullContent buffer rule: processBuffer.induct)
  case (1 fullContent buffer)
  show ?case
  proof (cases "0x0A \<in> set buffer")
    case False
    then show ?thesis by (simp add: processBuffer_no_newline)
  next
    case True
    let ?i = "indexOf buffer 0x0A"
    from True have ne: "?i \<noteq> - 1" by (simp add: indexOf_absent)
    from True have bounds: "0 \<le> ?i" "?i < int (length buffer)"
      using indexFrom_bounds [of "0x0A" buffer 0] by (simp_all add: indexOf_def)
    from True have same: "indexOf (buffer @ t) 0x0A = ?i"
      by (simp add: indexOf_def indexFrom_append)
    have line: "substring (buffer @ t) 0 ?i = substring buffer 0 ?i"
      using bounds by (simp add: substring_zero)
    have rest: "substringFrom (buffer @ t) (?i + 1) = substringFrom buffer (?i + 1) @ t"
      using bounds by (simp add: substringFrom_drop)
    show ?thesis
    proof (cases "substring buffer 0 ?i = []")
      case empty: True
      have "processBuffer fullContent (buffer @ t) =
            processBuffer fullContent (substringFrom buffer (?i + 1) @ t)"
        using ne empty by (subst processBuffer.simps) (simp add: same line rest)
      also have "\<dots> = (case processBuffer fullContent (substringFrom buffer (?i + 1)) of
            Returns (fullContent', buffer') \<Rightarrow> processBuffer fullContent' (buffer' @ t)
          | Throws e \<Rightarrow> Throws e
          | Unmodelled \<Rightarrow> Unmodelled)"
        using "1.IH"(2) [OF ne] empty by simp
      also have "processBuffer fullContent (substringFrom buffer (?i + 1)) =
                 processBuffer fullContent buffer"
        using ne empty by (subst (2) processBuffer.simps) simp
      finally show ?thesis .
    next
      case nonempty: False
      show ?thesis
      proof (cases "JSON_parse (substring buffer 0 ?i)")
        case None
        then have "processBuffer fullContent (buffer @ t) = Throws (Raw SyntaxError)"
          using ne nonempty by (subst processBuffer.simps) (simp add: same line rest)
        moreover from None have "processBuffer fullContent buffer = Throws (Raw SyntaxError)"
          using ne nonempty by (subst processBuffer.simps) simp
        ultimately show ?thesis by simp
      next
        case (Some parsed)
        show ?thesis
        proof (cases "lineContent parsed")
          case (Returns fragment)
          have "processBuffer fullContent (buffer @ t) =
                processBuffer (fullContent @ fragment) (substringFrom buffer (?i + 1) @ t)"
            using ne nonempty Some Returns
            by (subst processBuffer.simps) (simp add: same line rest)
          also have "\<dots> =
              (case processBuffer (fullContent @ fragment) (substringFrom buffer (?i + 1)) of
                 Returns (fullContent', buffer') \<Rightarrow> processBuffer fullContent' (buffer' @ t)
               | Throws e \<Rightarrow> Throws e
               | Unmodelled \<Rightarrow> Unmodelled)"
            using "1.IH"(1) [OF ne nonempty Some Returns] .
          also have "processBuffer (fullContent @ fragment) (substringFrom buffer (?i + 1)) =
                     processBuffer fullContent buffer"
            using ne nonempty Some Returns by (subst (2) processBuffer.simps) simp
          finally show ?thesis .
        next
          case (Throws e)
          then have "processBuffer fullContent (buffer @ t) = Throws e"
            using ne nonempty Some by (subst processBuffer.simps) (simp add: same line rest)
          moreover from Throws have "processBuffer fullContent buffer = Throws e"
            using ne nonempty Some by (subst processBuffer.simps) simp
          ultimately show ?thesis by simp
        next
          case Unmodelled
          then have "processBuffer fullContent (buffer @ t) = Unmodelled"
            using ne nonempty Some by (subst processBuffer.simps) (simp add: same line rest)
          moreover from Unmodelled have "processBuffer fullContent buffer = Unmodelled"
            using ne nonempty Some by (subst processBuffer.simps) simp
          ultimately show ?thesis by simp
        qed
      qed
    qed
  qed
qed

text \<open>
  The aggregation reads the chunks as one text: the result of a sequence of chunks is that
  of the inner loop run once on their decoded texts joined in order.
\<close>

lemma consumeChunks_decoded:
  "0x0A \<notin> set buffer \<Longrightarrow>
   consumeChunks fullContent buffer chunks =
     (case processBuffer fullContent (buffer @ concat (map toString chunks)) of
        Returns (fullContent', buffer') \<Rightarrow> Returns fullContent'
      | Throws e \<Rightarrow> Throws e
      | Unmodelled \<Rightarrow> Unmodelled)"
proof (induction chunks arbitrary: fullContent buffer)
  case Nil
  then show ?case by (simp add: processBuffer_no_newline)
next
  case (Cons chunk chunks)
  let ?rest = "concat (map toString chunks)"
  have split: "processBuffer fullContent (buffer @ concat (map toString (chunk # chunks))) =
      (case processBuffer fullContent (buffer @ toString chunk) of
         Returns (fullContent', buffer') \<Rightarrow> processBuffer fullContent' (buffer' @ ?rest)
       | Throws e \<Rightarrow> Throws e
       | Unmodelled \<Rightarrow> Unmodelled)"
    using processBuffer_append [of fullContent "buffer @ toString chunk" ?rest] by simp
  show ?case
  proof (cases "processBuffer fullContent (buffer @ toString chunk)")
    case (Returns r)
    obtain f b where r: "r = (f, b)" by (cases r)
    with Returns have "0x0A \<notin> set b" by (auto dest: processBuffer_rest)
    then have "consumeChunks f b chunks =
        (case processBuffer f (b @ ?rest) of
           Returns (fullContent', buffer') \<Rightarrow> Returns fullContent'
         | Throws e \<Rightarrow> Throws e
         | Unmodelled \<Rightarrow> Unmodelled)"
      by (rule Cons.IH)
    with Returns r show ?thesis unfolding split by simp
  next
    case (Throws e)
    then show ?thesis unfolding split by simp
  next
    case Unmodelled
    then show ?thesis unfolding split by simp
  qed
qed

lemma toString_Hel:
  "toString (bytes ''{\"message\":{\"content\":\"Hel'') = js ''{\"message\":{\"content\":\"Hel''"
  by (simp add: toString_def bytes_def js_def cu_def decodeUtf8.simps)

lemma toString_lo_world:
  "toString (bytes ''lo\"}}\<newline>{\"message\":{\"content\":\" world\"}}\<newline>'') =
     js ''lo\"}}\<newline>{\"message\":{\"content\":\" world\"}}\<newline>''"
  by (simp add: toString_def bytes_def js_def cu_def decodeUtf8.simps)

lemma processBuffer_Hello_world:
  "processBuffer []
     (js ''{\"message\":{\"content\":\"Hel'' @
      js ''lo\"}}\<newline>{\"message\":{\"content\":\" world\"}}\<newline>'') =
   Returns (js ''Hello world'', [])"
  by code_simp

text \<open>
  Claim C7. Feeding the aggregation loop the chunk \<open>{"message":{"content":"Hel\<close> and then
  the chunk made of \<open>lo"}}\<close>, a newline, \<open>{"message":{"content":" world"}}\<close> and a newline
  yields the accumulated content \<open>Hello world\<close>; and in general fragments split across
  reads are reassembled in order: any sequence of chunks gives the result of their decoded
  texts, joined in order, read at once.
\<close>

theorem consumeChunks_hello_world:
  "consumeChunks [] []
     [bytes ''{\"message\":{\"content\":\"Hel'',
      bytes ''lo\"}}\<newline>{\"message\":{\"content\":\" world\"}}\<newline>'']
   = Returns (js ''Hello world'') \<and>
   consumeChunks [] [] chunks =
     (case processBuffer [] (concat (map toString chunks)) of
        Returns (fullContent, buffer) \<Rightarrow> Returns fullContent
      | Throws e \<Rightarrow> Throws e
      | Unmodelled \<Rightarrow> Unmodelled)"
proof
  have "consumeChunks [] []
     [bytes ''{\"message\":{\"content\":\"Hel'',
      bytes ''lo\"}}\<newline>{\"message\":{\"content\":\" world\"}}\<newline>''] =
     (case processBuffer []
        ([] @ concat (map toString
           [bytes ''{\"message\":{\"content\":\"Hel'',
            bytes ''lo\"}}\<newline>{\"message\":{\"content\":\" world\"}}\<newline>''])) of
        Returns (fullContent, buffer) \<Rightarrow> Returns fullContent
      | Throws e \<Rightarrow> Throws e
      | Unmodelled \<Rightarrow> Unmodelled)"
    by (rule consumeChunks_decoded) simp
  then show "consumeChunks [] []
     [bytes ''{\"message\":{\"content\":\"Hel'',
      bytes ''lo\"}}\<newline>{\"message\":{\"content\":\" world\"}}\<newline>'']
   = Returns (js ''Hello world'')"
    by (simp add: toString_Hel toString_lo_world processBuffer_Hello_world)
  show "consumeChunks [] [] chunks =
     (case processBuffer [] (concat (map toString chunks)) of
        Returns (fullContent, buffer) \<Rightarrow> Returns fullContent
      | Throws e \<Rightarrow> Throws e
      | Unmodelled \<Rightarrow> Unmodelled)"
    using consumeChunks_decoded [of "[]" "[]" chunks] by simp
qed

text \<open>
  Each chunk is decoded on its own, so the decoded text, and with it the result, depends on
  where a read boundary falls inside a character of several bytes: the two bytes of
  \<open>U+00E9\<close> read together decode to that character, read apart to two replacement
  characters.
\<close>

lemma toString_split_character:
  "toString [0xC3, 0xA9] = [0xE9] \<and> toString [0xC3] @ toString [0xA9] = [0xFFFD, 0xFFFD]"
  by (simp add: toString_def utf16_def decodeUtf8.simps)

lemma toString_Hi_line_mess:
  "toString (bytes ''{\"message\":{\"content\":\"Hi\"}}\<newline>{\"mess'') =
     js ''{\"message\":{\"content\":\"Hi\"}}\<newline>{\"mess''"
  by (simp add: toString_def bytes_def js_def cu_def decodeUtf8.simps)

lemma toString_age_Hello:
  "toString (bytes ''age\":{\"content\":\"Hello!\"}}'') = js ''age\":{\"content\":\"Hello!\"}}''"
  by (simp add: toString_def bytes_def js_def cu_def decodeUtf8.simps)

lemma processBuffer_Hi_line:
  "processBuffer [] (js ''{\"message\":{\"content\":\"Hi\"}}\<newline>'') = Returns (js ''Hi'', [])"
  by code_simp

text \<open>
  Claim C8, as amended. At the end of the stream a remaining buffered partial line (one not
  terminated by a newline) is discarded without being parsed, whether or not it is valid
  JSON carrying message content: when the decoded text of the stream is \<open>whole\<close> followed by
  a \<open>partial\<close> line without a newline, the accumulated result is that of the lines of
  \<open>whole\<close> alone.
\<close>

theorem consumeChunks_final_partial_line:
  assumes "concat (map toString chunks) = whole @ partial"
    and "0x0A \<notin> set partial"
  shows "consumeChunks [] [] chunks =
     (case processBuffer [] whole of
        Returns (fullContent, buffer) \<Rightarrow> Returns fullContent
      | Throws e \<Rightarrow> Throws e
      | Unmodelled \<Rightarrow> Unmodelled)"
proof -
  have "consumeChunks [] [] chunks =
     (case processBuffer [] (whole @ partial) of
        Returns (fullContent, buffer) \<Rightarrow> Returns fullContent
      | Throws e \<Rightarrow> Throws e
      | Unmodelled \<Rightarrow> Unmodelled)"
    using consumeChunks_decoded [of "[]" "[]" chunks] assms(1) by simp
  also have "\<dots> =
     (case processBuffer [] whole of
        Returns (fullContent, buffer) \<Rightarrow> Returns fullContent
      | Throws e \<Rightarrow> Throws e
      | Unmodelled \<Rightarrow> Unmodelled)"
  proof (cases "processBuffer [] whole")
    case (Returns r)
    obtain f b where r: "r = (f, b)" by (cases r)
    with Returns have "0x0A \<notin> set b" by (auto dest: processBuffer_rest)
    with assms(2) have "processBuffer f (b @ partial) = Returns (f, b @ partial)"
      by (intro processBuffer_no_newline) simp
    with Returns r show ?thesis
      using processBuffer_append [of "[]" whole partial] by simp
  next
    case (Throws e)
    then show ?thesis using processBuffer_append [of "[]" whole partial] by simp
  next
    case Unmodelled
    then show ?thesis using processBuffer_append [of "[]" whole partial] by simp
  qed
  finally show ?thesis .
qed

theorem consumeChunks_final_partial_line_witness:
  "concat (map toString
     [bytes ''{\"message\":{\"content\":\"Hi\"}}\<newline>{\"mess'',
      bytes ''age\":{\"content\":\"Hello!\"}}'']) =
     js ''{\"message\":{\"content\":\"Hi\"}}\<newline>'' @ js ''{\"message\":{\"content\":\"Hello!\"}}'' \<and>
   0x0A \<notin> set (js ''{\"message\":{\"content\":\"Hello!\"}}'') \<and>
   consumeChunks [] []
     [bytes ''{\"message\":{\"content\":\"Hi\"}}\<newline>{\"mess'',
      bytes ''age\":{\"content\":\"Hello!\"}}'']
   = Returns (js ''Hi'')"
proof -
  have h1: "concat (map toString
     [bytes ''{\"message\":{\"content\":\"Hi\"}}\<newline>{\"mess'',
      bytes ''age\":{\"content\":\"Hello!\"}}'']) =
     js ''{\"message\":{\"content\":\"Hi\"}}\<newline>'' @ js ''{\"message\":{\"content\":\"Hello!\"}}''"
    by (simp add: toString_Hi_line_mess toString_age_Hello js_def)
  have h2: "0x0A \<notin> set (js ''{\"message\":{\"content\":\"Hello!\"}}'')"
    by (simp add: js_def cu_def)
  have "consumeChunks [] []
     [bytes ''{\"message\":{\"content\":\"Hi\"}}\<newline>{\"mess'',
      bytes ''age\":{\"content\":\"Hello!\"}}'']
   = Returns (js ''Hi'')"
    using consumeChunks_final_partial_line [OF h1 h2] by (simp add: processBuffer_Hi_line)
  with h1 h2 show ?thesis by (intro conjI)
qed

text \<open>
  The claim as stated fails: a single chunk holding the line
  \<open>{"message":{"content":"Hello!"}}\<close> without a newline parses as JSON and carries message
  content, and the accumulated result is empty.
\<close>

lemma parse_Hello_line:
  "JSON_parse (js ''{\"message\":{\"content\":\"Hello!\"}}'') =
     Some (JObject [(js ''message'', JObject [(js ''content'', JString (js ''Hello!''))])])"
  by code_simp

lemma lineContent_Hello:
  "lineContent (JObject [(js ''message'', JObject [(js ''content'', JString (js ''Hello!''))])])
     = Returns (js ''Hello!'')"
  by code_simp

lemma toString_Hello_unterminated:
  "toString (bytes ''{\"message\":{\"content\":\"Hello!\"}}'') =
     js ''{\"message\":{\"content\":\"Hello!\"}}''"
  by (simp add: toString_def bytes_def js_def cu_def decodeUtf8.simps)

theorem consumeChunks_unterminated_line_lost:
  "toString (bytes ''{\"message\":{\"content\":\"Hello!\"}}'') =
     js ''{\"message\":{\"content\":\"Hello!\"}}'' \<and>
   JSON_parse (js ''{\"message\":{\"content\":\"Hello!\"}}'') =
     Some (JObject [(js ''message'', JObject [(js ''content'', JString (js ''Hello!''))])]) \<and>
   lineContent (JObject [(js ''message'', JObject [(js ''content'', JString (js ''Hello!''))])])
     = Returns (js ''Hello!'') \<and>
   consumeChunks [] [] [bytes ''{\"message\":{\"content\":\"Hello!\"}}''] = Returns []"
proof -
  have "0x0A \<notin> set (js ''{\"message\":{\"content\":\"Hello!\"}}'')"
    by (simp add: js_def cu_def)
  then have "consumeChunks [] [] [bytes ''{\"message\":{\"content\":\"Hello!\"}}''] = Returns []"
    by (simp add: toString_Hello_unterminated processBuffer_no_newline)
  with toString_Hello_unterminated parse_Hello_line lineContent_Hello show ?thesis
    by (intro conjI)
qed

section \<open>Properties of the chat completion\<close>

text \<open>
  Claim C9, as amended. A chat completion whose \<open>messages\<close> array is empty fails without any
  invocation of the backend. In the TypeScript service the error is validation-typed and
  tagged with the correlation id: an \<open>AppError\<close> of status 400 and code \<open>VALIDATION_ERROR\<close>,
  which passes the \<open>catch\<close> block unchanged. In the JavaScript service, which has neither
  error classes nor correlation ids, it is a plain \<open>Error\<close> that carries only the message.
\<close>

theorem generateChatCompletion_empty_messages:
  "generateChatCompletion srv post (params\<lparr>messages := Some []\<rparr>) cid =
     (Throws (App \<lparr>errorClass = AppError,
                    message = js ''Messages array is required and must not be empty'',
                    statusCode = 400, code = js ''VALIDATION_ERROR'', correlationId = cid,
                    errorTimeout = None, service = None, cause = None\<rparr>), 0) \<and>
   generateChatCompletionJs srv postJs (paramsJs\<lparr>messages := Some []\<rparr>) =
     (Throws (Raw (PlainError (js ''Messages array is required and must not be empty'') None)), 0)"
  by (simp add: generateChatCompletion_def generateChatCompletionJs_def newAppError_def)

text \<open>
  The claim as stated fails: in the JavaScript service the value thrown for an empty
  \<open>messages\<close> array is not an application error at all, so it has no status, no code and no
  correlation id; in the TypeScript service the error is constructed as an \<open>AppError\<close>, not
  as an instance of the class \<open>ValidationError\<close>.
\<close>

theorem generateChatCompletion_empty_messages_not_ValidationError:
  "generateChatCompletionJs
     \<lparr>timeout = 30000, maxRetries = 3, defaultModel = js ''llama2'',
      defaultTemperature = 7 / 10, defaultMaxTokens = 2048\<rparr>
     (\<lambda>calls path requestData. Inr JNull)
     \<lparr>model = Some (js ''llama2''), messages = Some [], temperature = None,
      max_tokens = None, stream = None\<rparr> =
     (Throws (Raw (PlainError (js ''Messages array is required and must not be empty'') None)), 0) \<and>
   generateChatCompletion
     \<lparr>timeout = 30000, maxRetries = 3, defaultModel = js ''llama2'',
      defaultTemperature = 7 / 10, defaultMaxTokens = 2048\<rparr>
     (\<lambda>calls call. Inr [])
     \<lparr>model = Some (js ''llama2''), messages = Some [], temperature = None,
      max_tokens = None\<rparr> (js ''req-1'') =
     (Throws (App \<lparr>errorClass = AppError,
                    message = js ''Messages array is required and must not be empty'',
                    statusCode = 400, code = js ''VALIDATION_ERROR'',
                    correlationId = js ''req-1'',
                    errorTimeout = None, service = None, cause = None\<rparr>), 0)"
  by (simp add: generateChatCompletion_def generateChatCompletionJs_def newAppError_def)

lemma retryRequest_first_success:
  assumes "1 \<le> maxRetries srv"
    and "requestFn 0 (requestOptions srv options 1) = Inr v"
  shows "retryRequest srv requestFn options cid = (Returns v, 1)"
  unfolding retryRequest_def using assms by (subst retryLoop.simps) simp

lemma toString_Hello_line:
  "toString (bytes ''{\"message\":{\"content\":\"Hello!\"}}\<newline>'') =
     js ''{\"message\":{\"content\":\"Hello!\"}}\<newline>''"
  by (simp add: toString_def bytes_def js_def cu_def decodeUtf8.simps)

lemma processBuffer_Hello_line:
  "processBuffer [] (js ''{\"message\":{\"content\":\"Hello!\"}}\<newline>'') =
     Returns (js ''Hello!'', [])"
  by code_simp

lemma consumeChunks_Hello_line:
  "consumeChunks [] [] [bytes ''{\"message\":{\"content\":\"Hello!\"}}\<newline>''] =
     Returns (js ''Hello!'')"
  by (simp add: toString_Hello_line processBuffer_Hello_line)

lemma countTokens_Hello: "countTokens (js ''Hello!'') = 3"
  by (subst countTokens_word) (simp_all add: js_def cu_def isWhiteSpace_def)

text \<open>
  Claim C10. For the messages \<open>[{role: "user", content: "Hi"}]\<close> and a backend that answers
  the first call with the single chunk \<open>{"message":{"content":"Hello!"}}\<close> and a newline, the
  result has the content \<open>Hello!\<close>, \<open>prompt_tokens\<close> equal to the estimate of \<open>Hi\<close> (which
  is 2), \<open>completion_tokens = 6\<close>, the length of the content (its estimate would be 3), and
  \<open>total_tokens\<close> their sum; the backend is invoked once.
\<close>

theorem generateChatCompletion_hello:
  assumes "1 \<le> maxRetries srv"
    and "\<forall>call. post 0 call = Inr [bytes ''{\"message\":{\"content\":\"Hello!\"}}\<newline>'']"
  shows "generateChatCompletion srv post
           \<lparr>model = Some (js ''llama2''),
            messages = Some [\<lparr>role = js ''user'', content = js ''Hi'', name = None\<rparr>],
            temperature = None, max_tokens = None\<rparr> cid =
         (Returns \<lparr>success = True, data_message_content = js ''Hello!'',
                   result_model = js ''llama2'',
                   usage = \<lparr>prompt_tokens = countTokens (js ''Hi''), completion_tokens = 6,
                             total_tokens = countTokens (js ''Hi'') + 6\<rparr>\<rparr>, 1) \<and>
         countTokens (js ''Hi'') = 2 \<and> countTokens (js ''Hello!'') = 3"
proof -
  let ?requestData = "\<lparr>req_model = js ''llama2'',
      req_messages = [\<lparr>role = js ''user'', content = js ''Hi'', name = None\<rparr>],
      req_temperature = defaultTemperature srv, req_num_predict = defaultMaxTokens srv,
      req_stream = True\<rparr>"
  have "retryRequest srv
          (\<lambda>calls options. post calls
             \<lparr>url = js ''/api/chat'', body = ?requestData,
              config = options\<lparr>responseType := Some (js ''stream'')\<rparr>\<rparr>)
          \<lparr>optTimeout = None, responseType = None\<rparr> cid =
        (Returns [bytes ''{\"message\":{\"content\":\"Hello!\"}}\<newline>''], 1)"
    using assms by (intro retryRequest_first_success) simp_all
  moreover have "length (js ''Hello!'') = 6" by (simp add: js_def)
  ultimately show ?thesis
    by (simp add: generateChatCompletion_def consumeChunks_Hello_line countTokensMessages_Cons
        countTokensMessages_Nil countTokens_Hi countTokens_Hello del: consumeChunks.simps)
qed

theorem generateChatCompletion_hello_witness:
  "generateChatCompletion
     \<lparr>timeout = 30000, maxRetries = 3, defaultModel = js ''llama2'',
      defaultTemperature = 7 / 10, defaultMaxTokens = 2048\<rparr>
     (\<lambda>calls call. Inr [bytes ''{\"message\":{\"content\":\"Hello!\"}}\<newline>''])
     \<lparr>model = Some (js ''llama2''),
      messages = Some [\<lparr>role = js ''user'', content = js ''Hi'', name = None\<rparr>],
      temperature = None, max_tokens = None\<rparr> (js ''req-1'') =
   (Returns \<lparr>success = True, data_message_content = js ''Hello!'',
             result_model = js ''llama2'',
             usage = \<lparr>prompt_tokens = 2, completion_tokens = 6, total_tokens = 8\<rparr>\<rparr>, 1)"
  using generateChatCompletion_hello [where cid = "js ''req-1''"
      and srv = "\<lparr>timeout = 30000, maxRetries = 3, defaultModel = js ''llama2'',
                    defaultTemperature = 7 / 10, defaultMaxTokens = 2048\<rparr>"
      and post = "\<lambda>calls call. Inr [bytes ''{\"message\":{\"content\":\"Hello!\"}}\<newline>'']"]
  by simp

text \<open>
  The JavaScript service gives the same usage for the same exchange, when its client has
  parsed the body of the response.
\<close>

lemma maxTokens_llama2: "maxTokens (js ''llama2'') = Some 2867"
  unfolding maxTokens_div by (simp add: contextLimits_def)

lemma retryRequestJs_first_success:
  assumes "1 \<le> m"
    and "requestFn 0 = Inr v"
  shows "retryRequestJs m requestFn = (Returns v, 1)"
  unfolding retryRequestJs_def using assms by (subst retryLoopJs.simps) simp

lemma contentLength_Hello:
  "contentLength (JObject [(js ''message'', JObject [(js ''content'', JString (js ''Hello!''))])])
     = Returns 6"
  by code_simp

lemma generateChatCompletionJs_hello:
  assumes "1 \<le> maxRetries srv"
    and "\<forall>path requestData. post 0 path requestData =
           Inr (JObject [(js ''message'', JObject [(js ''content'', JString (js ''Hello!''))])])"
  shows "generateChatCompletionJs srv post
           \<lparr>model = Some (js ''llama2''),
            messages = Some [\<lparr>role = js ''user'', content = js ''Hi'', name = None\<rparr>],
            temperature = None, max_tokens = None, stream = None\<rparr> =
         (Returns \<lparr>js_success = True,
                   js_data = JObject [(js ''message'',
                                       JObject [(js ''content'', JString (js ''Hello!''))])],
                   js_model = js ''llama2'',
                   js_usage = \<lparr>prompt_tokens = 2, completion_tokens = 6,
                                total_tokens = 8\<rparr>\<rparr>, 1)"
proof -
  let ?msgs = "[\<lparr>role = js ''user'', content = js ''Hi'', name = None\<rparr>]"
  let ?data = "JObject [(js ''message'', JObject [(js ''content'', JString (js ''Hello!''))])]"
  have tokens: "countTokensMessages ?msgs = 2"
    by (simp add: countTokensMessages_Cons countTokensMessages_Nil countTokens_Hi)
  have fits: "processLongMessages ?msgs (js ''llama2'') = ?msgs"
    by (simp add: processLongMessages_def maxTokens_llama2 tokens)
  have "retryRequestJs (maxRetries srv)
          (\<lambda>calls. post calls (js ''/api/chat'')
             \<lparr>req_model = js ''llama2'', req_messages = ?msgs,
              req_temperature = defaultTemperature srv,
              req_num_predict = defaultMaxTokens srv, req_stream = False\<rparr>) =
        (Returns ?data, 1)"
    using assms by (intro retryRequestJs_first_success) simp_all
  then show ?thesis
    by (simp add: generateChatCompletionJs_def fits tokens contentLength_Hello
        del: contentLength.simps)
qed

text \<open>
  With \<open>maxRetries\<close> at 0 the value \<open>undefined\<close> thrown by \<open>retryRequest\<close> reaches the \<open>catch\<close>
  block of \<open>generateChatCompletion\<close>, whose log call fails on it: the method throws a
  \<open>TypeError\<close>, no application error.
\<close>

lemma generateChatCompletion_no_attempts:
  assumes "maxRetries srv \<le> 0"
    and "msgs \<noteq> []"
  shows "generateChatCompletion srv post (params\<lparr>messages := Some msgs\<rparr>) cid =
           (Throws (Raw TypeError), 0)"
  using assms by (simp add: generateChatCompletion_def retryRequest_no_attempts)

lemma retryRequest_all_fail:
  assumes "1 \<le> maxRetries srv"
    and "\<forall>i < nat (maxRetries srv). \<exists>e.
           requestFn i (requestOptions srv options (int i + 1)) = Inl e"
  shows "\<exists>e. requestFn (nat (maxRetries srv) - 1)
                (requestOptions srv options (maxRetries srv)) = Inl e \<and>
             retryRequest srv requestFn options cid =
               ((if isTimeoutError e
                 then Throws (App (newTimeoutError (timeoutMessage srv) cid
                                     (timeoutOr options (timeout srv))))
                 else Throws (Raw (Rejected e))), nat (maxRetries srv))"
proof -
  have "0 < nat (maxRetries srv)" using assms(1) by simp
  with assms(2) have "\<exists>e. requestFn (nat (maxRetries srv) - 1)
                (requestOptions srv options (maxRetries srv)) = Inl e \<and>
             retryLoop srv requestFn options cid (int 0 + 1) None 0 =
               ((if isTimeoutError e
                 then Throws (App (newTimeoutError (timeoutMessage srv) cid
                                     (timeoutOr options (timeout srv))))
                 else Throws (Raw (Rejected e))), nat (maxRetries srv))"
    by (intro retryLoop_always_fails) simp_all
  then show ?thesis by (simp add: retryRequest_def)
qed

lemma not_timeout_400:
  "\<not> isTimeoutError \<lparr>errorCode = Some (js ''ERR_BAD_REQUEST''),
       errorMessage = js ''Request failed with status code 400'', responseStatus = Some 400,
        responseData = None, request = True\<rparr>"
  by (simp add: isTimeoutError_def js_def cu_def)

text \<open>
  Claim C6, as amended. An error raised by input validation occurs before the transport is
  entered, with zero backend invocations; the transport itself does not classify failures:
  whatever the errors are, if \<open>requestFn\<close> fails on each of its first \<open>maxRetries\<close> invocations
  it is invoked exactly \<open>maxRetries\<close> times.
\<close>

theorem retryRequest_retries_every_failure:
  assumes "\<forall>i < nat (maxRetries srv). \<exists>e.
           requestFn i (requestOptions srv options (int i + 1)) = Inl e"
  shows "(\<exists>e. generateChatCompletion srv post (params\<lparr>messages := Some []\<rparr>) cid
                = (Throws (App e), 0) \<and> code e = js ''VALIDATION_ERROR'' \<and> statusCode e = 400) \<and>
         snd (retryRequest srv requestFn options cid) = nat (maxRetries srv)"
proof -
  have "snd (retryRequest srv requestFn options cid) = nat (maxRetries srv)"
  proof (cases "1 \<le> maxRetries srv")
    case True
    with assms retryRequest_all_fail [where srv = srv and requestFn = requestFn
        and options = options and cid = cid]
    show ?thesis by auto
  next
    case False
    then have "maxRetries srv \<le> 0" by simp
    then show ?thesis by (simp add: retryRequest_no_attempts)
  qed
  then show ?thesis
    by (simp add: generateChatCompletion_def newAppError_def)
qed

theorem retryRequest_retries_every_failure_witness:
  "snd (retryRequest
     \<lparr>timeout = 30000, maxRetries = 3, defaultModel = js ''llama2'',
      defaultTemperature = 7 / 10, defaultMaxTokens = 2048\<rparr>
     (\<lambda>calls options. Inl \<lparr>errorCode = Some (js ''ERR_BAD_REQUEST''),
        errorMessage = js ''Request failed with status code 404'', responseStatus = Some 404,
        responseData = None, request = True\<rparr>)
     \<lparr>optTimeout = None, responseType = None\<rparr> (js ''req-2'')) = 3"
  using retryRequest_retries_every_failure [where cid = "js ''req-2''"
      and srv = "\<lparr>timeout = 30000, maxRetries = 3, defaultModel = js ''llama2'',
                    defaultTemperature = 7 / 10, defaultMaxTokens = 2048\<rparr>"
      and requestFn = "\<lambda>calls options. Inl \<lparr>errorCode = Some (js ''ERR_BAD_REQUEST''),
        errorMessage = js ''Request failed with status code 404'', responseStatus = Some 404,
        responseData = None, request = True\<rparr>"
      and options = "\<lparr>optTimeout = None, responseType = None\<rparr>"
      and post = "\<lambda>calls call. Inr []"
      and params = "\<lparr>model = None, messages = None, temperature = None, max_tokens = None\<rparr>"]
  by auto

text \<open>
  The claim as stated fails: a backend that answers every call with the status 400, which is
  not a timeout and not a transport-level failure, is invoked 3 times when \<open>maxRetries\<close> is 3.
\<close>

theorem retryRequest_retries_bad_request:
  "\<not> isTimeoutError \<lparr>errorCode = Some (js ''ERR_BAD_REQUEST''),
       errorMessage = js ''Request failed with status code 400'', responseStatus = Some 400,
        responseData = None, request = True\<rparr> \<and>
   retryRequest
     \<lparr>timeout = 30000, maxRetries = 3, defaultModel = js ''llama2'',
      defaultTemperature = 7 / 10, defaultMaxTokens = 2048\<rparr>
     (\<lambda>calls options. Inl \<lparr>errorCode = Some (js ''ERR_BAD_REQUEST''),
        errorMessage = js ''Request failed with status code 400'', responseStatus = Some 400,
        responseData = None, request = True\<rparr>)
     \<lparr>optTimeout = None, responseType = None\<rparr> (js ''req-1'') =
   (Throws (Raw (Rejected \<lparr>errorCode = Some (js ''ERR_BAD_REQUEST''),
        errorMessage = js ''Request failed with status code 400'', responseStatus = Some 400,
        responseData = None, request = True\<rparr>)), 3)"
  using retryRequest_all_fail [where cid = "js ''req-1''"
      and srv = "\<lparr>timeout = 30000, maxRetries = 3, defaultModel = js ''llama2'',
                    defaultTemperature = 7 / 10, defaultMaxTokens = 2048\<rparr>"
      and requestFn = "\<lambda>calls options. Inl \<lparr>errorCode = Some (js ''ERR_BAD_REQUEST''),
        errorMessage = js ''Request failed with status code 400'', responseStatus = Some 400,
        responseData = None, request = True\<rparr>"
      and options = "\<lparr>optTimeout = None, responseType = None\<rparr>"]
    not_timeout_400
  by simp

end
